theory Spec2Isabelle
  imports Complex_Main "HOL-Library.Multiset" "HOL-Library.Log_Nat"
begin

section \<open>Mahjong tournament tracker: scoring engine, ledger, roster and leaderboard\<close>

text \<open>
  The repository holds two snapshots of one React component: \<^verbatim>\<open>src/App.jsx\<close> (roster
  editing, a configurable Top-K divider, raw scores that must sum to 100000) and an earlier
  snapshot (a fixed roster, optional 2-player groups, no sum rule). The pure function
  \<^verbatim>\<open>computeRoundDeltas\<close> is the same text in both.

  The scoring engine is modelled twice: over the exact reals, for what it ranks, looks up
  and returns, and with the rounding of IEEE binary64 (\<open>computeRoundDeltas64\<close>), for what
  depends on the arithmetic. \<^verbatim>\<open>Number\<close> and the sum of the raw scores in the validation are
  binary64; the ledger of the state machine adds exact reals. Identifiers and field texts
  are byte strings.
\<close>

subsection \<open>Records of a round\<close>

text \<open>
  \<^verbatim>\<open>computeRoundDeltas\<close> reads the fields \<^verbatim>\<open>pid\<close> and \<^verbatim>\<open>raw\<close> of its entries and
  ignores any other (the caller also passes \<^verbatim>\<open>idx\<close>); it returns objects
  \<^verbatim>\<open>{ pid, delta, base, bonus, raw }\<close>.
\<close>

record seat_core =
  pid :: string
  raw :: real

record seat_entry = seat_core +
  idx :: nat

record breakdown_entry = seat_core +
  delta :: real
  base :: real
  bonus :: real

subsection \<open>Built-ins: \<^verbatim>\<open>Array.prototype.sort\<close> and \<^verbatim>\<open>Object.fromEntries\<close>\<close>

text \<open>
  \<^verbatim>\<open>sort\<close> with a comparator is stable: an element moves in front of another only when
  the comparator puts it strictly first. It is modelled by the insertion sort that puts
  every element, from the last to the first, in front of the first element it does not
  compare greater than.
\<close>

fun js_insert :: "('a \<Rightarrow> 'a \<Rightarrow> real) \<Rightarrow> 'a \<Rightarrow> 'a list \<Rightarrow> 'a list" where
  "js_insert cmp x [] = [x]"
| "js_insert cmp x (y # ys) = (if cmp x y \<le> 0 then x # y # ys else y # js_insert cmp x ys)"

definition js_sort :: "('a \<Rightarrow> 'a \<Rightarrow> real) \<Rightarrow> 'a list \<Rightarrow> 'a list" where
  "js_sort cmp xs = foldr (js_insert cmp) xs []"

text \<open>\<^verbatim>\<open>Object.fromEntries\<close>: entries are stored in order, a later key overwrites.\<close>

definition fromEntries :: "('k \<times> 'v) list \<Rightarrow> ('k \<rightharpoonup> 'v)" where
  "fromEntries kvs = fold (\<lambda>(k, v) m. m(k \<mapsto> v)) kvs Map.empty"

subsection \<open>The scoring engine\<close>

text \<open>
  \<^verbatim>\<open>
  function computeRoundDeltas(seatWithRaw, rankBonus) {
    const sorted = [...seatWithRaw].sort((a, b) => b.raw - a.raw);
    const rankIndexByPid = Object.fromEntries(sorted.map((x, i) => [x.pid, i]));
    return seatWithRaw.map(({ pid, raw }) => {
      const base = (raw - 30000) / 1000;
      const bonus = rankBonus[rankIndexByPid[pid]] ?? 0;
      return { pid, delta: base + bonus, base, bonus, raw };
    });
  }
  \<close>
  The two local constants are definitions of their own; \<open>bonus_at\<close> is the indexing
  \<^verbatim>\<open>rankBonus[...] ?? 0\<close>, which yields 0 when the index is undefined or outside the table.
\<close>

definition sorted_by_raw :: "'a seat_core_scheme list \<Rightarrow> 'a seat_core_scheme list" where
  "sorted_by_raw seatWithRaw = js_sort (\<lambda>a b. raw b - raw a) seatWithRaw"

definition rankIndexByPid :: "'a seat_core_scheme list \<Rightarrow> (string \<rightharpoonup> nat)" where
  "rankIndexByPid seatWithRaw =
     (let sorted = sorted_by_raw seatWithRaw
      in fromEntries (zip (map pid sorted) [0..<length sorted]))"

definition bonus_at :: "real list \<Rightarrow> nat option \<Rightarrow> real" where
  "bonus_at rankBonus r =
     (case r of
        None \<Rightarrow> 0
      | Some i \<Rightarrow> if i < length rankBonus then rankBonus ! i else 0)"

definition computeRoundDeltas ::
  "'a seat_core_scheme list \<Rightarrow> real list \<Rightarrow> breakdown_entry list" where
  "computeRoundDeltas seatWithRaw rankBonus =
     (let rankIndex = rankIndexByPid seatWithRaw
      in map (\<lambda>e.
            let base = (raw e - 30000) / 1000;
                bonus = bonus_at rankBonus (rankIndex (pid e))
            in \<lparr> pid = pid e, raw = raw e, delta = base + bonus, base = base, bonus = bonus \<rparr>)
          seatWithRaw)"

text \<open>
  The specification's ranking, in its own words: rank by raw score descending, ties broken
  by input order, index 0 the best. The rank index of the entry at position \<open>i\<close> is the
  number of entries with a strictly higher raw score plus the number of entries before
  position \<open>i\<close> with the same raw score.
\<close>

definition rank_spec :: "'a seat_core_scheme list \<Rightarrow> nat \<Rightarrow> nat" where
  "rank_spec es i =
     length (filter (\<lambda>e. raw (es ! i) < raw e) es) +
     length (filter (\<lambda>e. raw e = raw (es ! i)) (take i es))"

text \<open>The two rounds of the developer self-tests, and their bonus table.\<close>

definition test_bonus :: "real list" where
  "test_bonus = [20, 10, - 10, - 20]"

definition test_seat1 :: "seat_entry list" where
  "test_seat1 =
     [\<lparr>pid = ''A'', raw = 45000, idx = 0\<rparr>, \<lparr>pid = ''B'', raw = 33000, idx = 1\<rparr>,
      \<lparr>pid = ''C'', raw = 25000, idx = 2\<rparr>, \<lparr>pid = ''D'', raw = 20000, idx = 3\<rparr>]"

definition test_seat2 :: "seat_entry list" where
  "test_seat2 =
     [\<lparr>pid = ''E'', raw = 30000, idx = 0\<rparr>, \<lparr>pid = ''F'', raw = 30000, idx = 1\<rparr>,
      \<lparr>pid = ''G'', raw = 28000, idx = 2\<rparr>, \<lparr>pid = ''H'', raw = 12000, idx = 3\<rparr>]"

subsection \<open>IEEE binary64 arithmetic\<close>

text \<open>
  A JavaScript number is a finite double, an infinity or \<^verbatim>\<open>NaN\<close>. A finite double is
  given by its real value (the sign of zero is not modelled). \<open>round64\<close> is rounding to
  nearest, ties to even: a real of magnitude at least \<open>2^1024 - 2^970\<close>, half a unit above
  the largest double, rounds to an infinity; any other real is rounded to a multiple of the
  unit \<open>2^(e - 52)\<close> of its binade \<open>2^e \<le> |x| < 2^(e + 1)\<close>, with \<open>e\<close> at least \<open>-1022\<close>
  (the subnormal range).
\<close>

datatype jsnum = Num real | PosInfinity | NegInfinity | NaN

definition pow2 :: "int \<Rightarrow> real" where
  "pow2 e = (if 0 \<le> e then 2 ^ nat e else 1 / 2 ^ nat (- e))"

text \<open>The exponent \<open>e\<close> with \<open>2^e \<le> |x| < 2^(e + 1)\<close>, for \<open>x\<close> other than 0.\<close>

definition ilog2 :: "real \<Rightarrow> int" where
  "ilog2 x =
     (if 1 \<le> \<bar>x\<bar> then int (floorlog 2 (nat \<lfloor>\<bar>x\<bar>\<rfloor>)) - 1
      else - int (floorlog 2 (nat (\<lceil>1 / \<bar>x\<bar>\<rceil> - 1))))"

definition round_half_even :: "real \<Rightarrow> int" where
  "round_half_even q =
     (let f = \<lfloor>q\<rfloor>; r = q - of_int f
      in if r < 1 / 2 then f else if 1 / 2 < r then f + 1 else if even f then f else f + 1)"

definition round64 :: "real \<Rightarrow> jsnum" where
  "round64 x =
     (if 2 ^ 1024 - 2 ^ 970 \<le> x then PosInfinity
      else if x \<le> - (2 ^ 1024 - 2 ^ 970) then NegInfinity
      else if x = 0 then Num 0
      else
        let e = max (ilog2 x) (- 1022);
            u = pow2 (e - 52)
        in Num (of_int (round_half_even (x / u)) * u))"

text \<open>Addition, and division by a positive finite constant.\<close>

fun js_add :: "jsnum \<Rightarrow> jsnum \<Rightarrow> jsnum" where
  "js_add (Num a) (Num b) = round64 (a + b)"
| "js_add NaN y = NaN"
| "js_add x NaN = NaN"
| "js_add PosInfinity NegInfinity = NaN"
| "js_add NegInfinity PosInfinity = NaN"
| "js_add PosInfinity y = PosInfinity"
| "js_add x PosInfinity = PosInfinity"
| "js_add NegInfinity y = NegInfinity"
| "js_add x NegInfinity = NegInfinity"

fun js_div_by :: "real \<Rightarrow> jsnum \<Rightarrow> jsnum" where
  "js_div_by d (Num a) = round64 (a / d)"
| "js_div_by d x = x"

text \<open>\<^verbatim>\<open>xs.reduce((a, b) => a + b, 0)\<close>.\<close>

definition js_sum :: "jsnum list \<Rightarrow> jsnum" where
  "js_sum xs = foldl js_add (Num 0) xs"

subsection \<open>The scoring engine in binary64\<close>

text \<open>
  \<^verbatim>\<open>computeRoundDeltas\<close> again, with the subtraction, the division and the addition of its
  body rounded as the code rounds them; the raw scores and the table entries are finite
  doubles. The ranking is the one above: the comparator \<^verbatim>\<open>b.raw - a.raw\<close> of two doubles
  has the sign of their exact difference.
\<close>

record breakdown64 = seat_core +
  delta64 :: jsnum
  base64 :: jsnum
  bonus64 :: real

definition computeRoundDeltas64 ::
  "'a seat_core_scheme list \<Rightarrow> real list \<Rightarrow> breakdown64 list" where
  "computeRoundDeltas64 seatWithRaw rankBonus =
     (let rankIndex = rankIndexByPid seatWithRaw
      in map (\<lambda>e.
            let base = js_div_by 1000 (js_add (Num (raw e)) (Num (- 30000)));
                bonus = bonus_at rankBonus (rankIndex (pid e))
            in \<lparr> pid = pid e, raw = raw e, delta64 = js_add base (Num bonus), base64 = base,
                 bonus64 = bonus \<rparr>)
          seatWithRaw)"

text \<open>A round whose bases are not doubles.\<close>

definition rounding_seat :: "seat_entry list" where
  "rounding_seat =
     [\<lparr>pid = ''A'', raw = 26600, idx = 0\<rparr>, \<lparr>pid = ''B'', raw = 26500, idx = 1\<rparr>,
      \<lparr>pid = ''C'', raw = 23800, idx = 2\<rparr>, \<lparr>pid = ''D'', raw = 23100, idx = 3\<rparr>]"

subsection \<open>Built-ins: \<^verbatim>\<open>Number\<close>, \<^verbatim>\<open>trim\<close>, template strings, \<^verbatim>\<open>slice\<close>\<close>

text \<open>
  The text fields of the dialogs strip every character but digits and the minus sign
  (\<^verbatim>\<open>replace(/[^\d-]/g, "")\<close>), so \<^verbatim>\<open>Number\<close> is applied to strings over that alphabet:
  the empty string is 0, a digit string with at most one leading minus is its value rounded
  to the nearest double (an infinity when it is too large), and anything else is \<^verbatim>\<open>NaN\<close>.
  Every caller tests the result with \<^verbatim>\<open>Number.isFinite\<close> first: \<open>Number_js\<close> is the finite
  double, and \<open>None\<close> when the number is \<^verbatim>\<open>NaN\<close> or an infinity.
\<close>

definition digit_of :: "char \<Rightarrow> nat option" where
  "digit_of c =
     (let n = (of_char c :: nat) in if 48 \<le> n \<and> n \<le> 57 then Some (n - 48) else None)"

fun digits_val :: "nat \<Rightarrow> string \<Rightarrow> nat option" where
  "digits_val acc [] = Some acc"
| "digits_val acc (c # cs) =
     (case digit_of c of None \<Rightarrow> None | Some d \<Rightarrow> digits_val (10 * acc + d) cs)"

definition Number_value :: "string \<Rightarrow> jsnum" where
  "Number_value v =
     (case v of
        [] \<Rightarrow> Num 0
      | c # cs \<Rightarrow>
          if c = CHR ''-'' then
            (if cs = [] then NaN
             else case digits_val 0 cs of None \<Rightarrow> NaN | Some n \<Rightarrow> round64 (- real n))
          else case digits_val 0 v of None \<Rightarrow> NaN | Some n \<Rightarrow> round64 (real n))"

definition Number_js :: "string \<Rightarrow> real option" where
  "Number_js v = (case Number_value v of Num x \<Rightarrow> Some x | _ \<Rightarrow> None)"

text \<open>
  \<^verbatim>\<open>Number(v)\<close> where the caller has already checked \<^verbatim>\<open>Number.isFinite\<close> on the same
  text; the reals of the model have no \<^verbatim>\<open>NaN\<close>, and the other branch is never taken there.
\<close>

definition Number_checked :: "string \<Rightarrow> real" where
  "Number_checked v = (case Number_js v of Some x \<Rightarrow> x | None \<Rightarrow> 0)"

text \<open>\<^verbatim>\<open>String.prototype.trim\<close>, on the ASCII white space.\<close>

definition is_space :: "char \<Rightarrow> bool" where
  "is_space c = (c \<in> set [CHR '' '', CHR 0x09, CHR 0x0A, CHR 0x0B, CHR 0x0C, CHR 0x0D])"

definition trim :: "string \<Rightarrow> string" where
  "trim s = rev (dropWhile is_space (rev (dropWhile is_space s)))"

text \<open>The decimal text of a clock reading, as a template string prints it.\<close>

definition digit_char :: "nat \<Rightarrow> char" where
  "digit_char d = ''0123456789'' ! d"

function string_of_nat :: "nat \<Rightarrow> string" where
  "string_of_nat n =
     (if n < 10 then [digit_char n] else string_of_nat (n div 10) @ [digit_char (n mod 10)])"
  by pat_completeness auto
termination
  by (relation "measure (\<lambda>n. n)") auto

declare string_of_nat.simps [simp del]

text \<open>
  \<^verbatim>\<open>Array.prototype.slice\<close>: an index is truncated to an integer, a negative index counts
  from the end, and both ends are clamped to the array.
\<close>

definition js_trunc :: "real \<Rightarrow> int" where
  "js_trunc r = (if r < 0 then \<lceil>r\<rceil> else \<lfloor>r\<rfloor>)"

definition slice_index :: "nat \<Rightarrow> real \<Rightarrow> nat" where
  "slice_index len r =
     (let k = js_trunc r in if k < 0 then nat (max (int len + k) 0) else min (nat k) len)"

definition js_slice :: "'a list \<Rightarrow> real \<Rightarrow> real option \<Rightarrow> 'a list" where
  "js_slice xs start stop =
     (let from = slice_index (length xs) start;
          to = (case stop of None \<Rightarrow> length xs | Some e \<Rightarrow> slice_index (length xs) e)
      in take (to - from) (drop from xs))"

subsection \<open>The tournament state\<close>

text \<open>
  The dialogs keep the four seats and the four raw-score texts in arrays of length 4 that
  are only ever updated at the indices 0 to 3: they are 4-tuples.
\<close>

type_synonym 'a quad = "'a \<times> 'a \<times> 'a \<times> 'a"

definition quad_list :: "'a quad \<Rightarrow> 'a list" where
  "quad_list q = (case q of (a, b, c, d) \<Rightarrow> [a, b, c, d])"

record player =
  p_id :: string
  p_name :: string
  p_avatar :: string
  p_note :: string

record round =
  r_id :: string
  r_at :: string
  r_seat :: "string list"
  r_raw :: "real list"
  breakdown :: "breakdown_entry list"

text \<open>
  The state both snapshots share (\<^verbatim>\<open>useState\<close> cells of the component): the roster, the
  ledger \<^verbatim>\<open>playerScores\<close>, the committed rounds, the rank-bonus table and two dialog flags.
\<close>

record core_state =
  players :: "player list"
  playerScores :: "string \<rightharpoonup> real"
  rounds :: "round list"
  rankBonus :: "real list"
  showRoundDialog :: bool
  showSettings :: bool

text \<open>\<^verbatim>\<open>src/App.jsx\<close> adds the Top-K setting and the add-player dialogs.\<close>

record app_state = core_state +
  topK :: real
  showAddPlayer :: bool
  showSharkySelect :: bool
  sharkySelected :: "string list"

text \<open>The earlier snapshot adds the grouping configuration and its dialog flag.\<close>

record group =
  g_id :: string
  g_name :: string
  members :: "string list"

record grp_state = core_state +
  groupsEnabled :: bool
  groups :: "group list"
  showGroupSetup :: bool

text \<open>
  The messages the handlers surface (\<^verbatim>\<open>setError\<close> in the round dialog, \<^verbatim>\<open>alert\<close> in the
  others). The source texts are Chinese sentences; each constructor stands for one of them:
  four distinct players are required, scores must be valid numbers, the scores must sum to
  100000 (with the sum found), bonuses must be valid numbers, Top K must lie between 1 and
  the number of players, an enabled grouping needs 8 players in 4 groups of 2.
\<close>

datatype message =
    MsgSeats
  | MsgScores
  | MsgSum jsnum
  | MsgBonus
  | MsgTopK
  | MsgGroups

text \<open>\<^verbatim>\<open>playerScores[id] || 0\<close>: a missing entry reads as 0.\<close>

definition ledger_get :: "(string \<rightharpoonup> real) \<Rightarrow> string \<Rightarrow> real" where
  "ledger_get scores p = (case scores p of None \<Rightarrow> 0 | Some v \<Rightarrow> v)"

subsection \<open>Committing a round\<close>

text \<open>
  \<^verbatim>\<open>
  function validate() {
    const unique = new Set(seat.filter(Boolean));
    if (unique.size !== 4) return "...";
    const nums = raw.map(v => Number(v));
    if (nums.some(n => !Number.isFinite(n))) return "...";
    const sum = nums.reduce((a, b) => a + b, 0);          // src/App.jsx only
    if (sum !== 100000) return `... ${sum}`;              // src/App.jsx only
    return "";
  }
  \<close>
  The empty string, no message, is \<open>None\<close>.
\<close>

definition validate :: "string quad \<Rightarrow> string quad \<Rightarrow> message option" where
  "validate seat raws =
     (let unique = remdups (filter (\<lambda>p. p \<noteq> []) (quad_list seat))
      in if length unique \<noteq> 4 then Some MsgSeats
         else case those (map Number_js (quad_list raws)) of
                None \<Rightarrow> Some MsgScores
              | Some nums \<Rightarrow>
                  let sum = js_sum (map Num nums)
                  in if sum \<noteq> Num 100000 then Some (MsgSum sum) else None)"

definition validate_grp :: "string quad \<Rightarrow> string quad \<Rightarrow> message option" where
  "validate_grp seat raws =
     (let unique = remdups (filter (\<lambda>p. p \<noteq> []) (quad_list seat))
      in if length unique \<noteq> 4 then Some MsgSeats
         else case those (map Number_js (quad_list raws)) of
                None \<Rightarrow> Some MsgScores
              | Some nums \<Rightarrow> None)"

text \<open>
  \<^verbatim>\<open>
  function onSave() {
    const msg = validate();
    if (msg) return setError(msg);
    const seatWithRaw = seat.map((pid, idx) => ({ pid, raw: Number(raw[idx]), idx }));
    const deltas = computeRoundDeltas(seatWithRaw, rankBonus);
    setRounds(prev => [...prev, { id: `r${Date.now()}`, at: new Date().toISOString(),
                                  seat: [...seat], raw: raw.map(Number), breakdown: deltas }]);
    setPlayerScores(prev => {
      const next = { ...prev };
      for (const d of deltas) next[d.pid] = (next[d.pid] || 0) + d.delta;
      return next;
    });
    setShowRoundDialog(false);
  }
  \<close>
  The text is the same in both snapshots and differs in the \<^verbatim>\<open>validate\<close> it calls, which is
  a parameter here. The clock reading and the ISO time text are inputs. The handler returns
  the new state and the message it has set, if any.
\<close>

definition add_deltas :: "breakdown_entry list \<Rightarrow> (string \<rightharpoonup> real) \<Rightarrow> (string \<rightharpoonup> real)" where
  "add_deltas deltas prev =
     fold (\<lambda>d next. next(pid d \<mapsto> ledger_get next (pid d) + delta d)) deltas prev"

definition seatWithRaw_of :: "string quad \<Rightarrow> string quad \<Rightarrow> seat_entry list" where
  "seatWithRaw_of seat raws =
     map (\<lambda>(p, v, i). \<lparr> pid = p, raw = Number_checked v, idx = i \<rparr>)
       (zip (quad_list seat) (zip (quad_list raws) [0..<4]))"

definition onSave_with ::
  "(string quad \<Rightarrow> string quad \<Rightarrow> message option) \<Rightarrow> 'a core_state_scheme \<Rightarrow>
   nat \<Rightarrow> string \<Rightarrow> string quad \<Rightarrow> string quad \<Rightarrow> 'a core_state_scheme \<times> message option" where
  "onSave_with validate_fn s now isoTime seat raws =
     (case validate_fn seat raws of
        Some msg \<Rightarrow> (s, Some msg)
      | None \<Rightarrow>
          let deltas = computeRoundDeltas (seatWithRaw_of seat raws) (rankBonus s)
          in (s\<lparr> rounds := rounds s @
                   [\<lparr> r_id = ''r'' @ string_of_nat now, r_at = isoTime, r_seat = quad_list seat,
                      r_raw = map Number_checked (quad_list raws), breakdown = deltas \<rparr>],
                 playerScores := add_deltas deltas (playerScores s),
                 showRoundDialog := False \<rparr>,
              None))"

definition RoundDialog_onSave ::
  "app_state \<Rightarrow> nat \<Rightarrow> string \<Rightarrow> string quad \<Rightarrow> string quad \<Rightarrow> app_state \<times> message option" where
  "RoundDialog_onSave = onSave_with validate"

definition RoundDialog_onSave_grp ::
  "grp_state \<Rightarrow> nat \<Rightarrow> string \<Rightarrow> string quad \<Rightarrow> string quad \<Rightarrow> grp_state \<times> message option" where
  "RoundDialog_onSave_grp = onSave_with validate_grp"

subsection \<open>Handlers of \<^verbatim>\<open>src/App.jsx\<close>\<close>

definition DEFAULT_PLAYERS :: "player list" where
  "DEFAULT_PLAYERS =
     [\<lparr> p_id = ''p1'', p_name = ''Sitaowex'', p_avatar = ''/avatars/sita.jpg'', p_note = '''' \<rparr>,
      \<lparr> p_id = ''p2'', p_name = ''Len Ozora'', p_avatar = ''/avatars/len.jpg'', p_note = '''' \<rparr>,
      \<lparr> p_id = ''p3'', p_name = ''TT'', p_avatar = ''/avatars/tt.jpg'', p_note = '''' \<rparr>,
      \<lparr> p_id = ''p4'', p_name = ''Lakto'', p_avatar = ''/avatars/lakto.jpg'', p_note = '''' \<rparr>,
      \<lparr> p_id = ''p5'', p_name = ''Tigris Scientificus'', p_avatar = ''/avatars/tiger.jpg'',
        p_note = '''' \<rparr>,
      \<lparr> p_id = ''p6'', p_name = ''okamipancake'', p_avatar = ''/avatars/lj.jpg'', p_note = '''' \<rparr>,
      \<lparr> p_id = ''p7'', p_name = ''Silveryena'', p_avatar = ''/avatars/sil.jpg'', p_note = '''' \<rparr>,
      \<lparr> p_id = ''p8'', p_name = ''Neon'', p_avatar = ''/avatars/neon.png'', p_note = '''' \<rparr>,
      \<lparr> p_id = ''p9'', p_name = ''Abgnegplt'', p_avatar = ''/avatars/Abgnegplt.jpg'',
        p_note = '''' \<rparr>]"

definition EMPTY_BONUS :: "real list" where
  "EMPTY_BONUS = [35, 10, - 10, - 20]"

text \<open>The state the component starts in when nothing is persisted.\<close>

definition initial_state :: app_state where
  "initial_state =
     \<lparr> players = [], playerScores = fromEntries (map (\<lambda>p. (p_id p, 0)) DEFAULT_PLAYERS),
       rounds = [], rankBonus = EMPTY_BONUS, showRoundDialog = False, showSettings = False,
       topK = 4, showAddPlayer = False, showSharkySelect = False, sharkySelected = [] \<rparr>"

text \<open>
  \<^verbatim>\<open>resetAll\<close>, \<^verbatim>\<open>revertToDefault\<close> and the remove button first ask \<^verbatim>\<open>window.confirm\<close>;
  the answer is the argument \<open>confirmed\<close>.
\<close>

definition resetAll :: "app_state \<Rightarrow> bool \<Rightarrow> app_state" where
  "resetAll s confirmed =
     (if \<not> confirmed then s
      else s\<lparr> playerScores := fromEntries (map (\<lambda>p. (p_id p, 0)) (players s)), rounds := [] \<rparr>)"

datatype patch = PatchName string | PatchAvatar string

fun apply_patch :: "player \<Rightarrow> patch \<Rightarrow> player" where
  "apply_patch p (PatchName n) = p\<lparr> p_name := n \<rparr>"
| "apply_patch p (PatchAvatar a) = p\<lparr> p_avatar := a \<rparr>"

definition handleUpdatePlayer ::
  "'a core_state_scheme \<Rightarrow> string \<Rightarrow> patch \<Rightarrow> 'a core_state_scheme" where
  "handleUpdatePlayer s ident pt =
     s\<lparr> players := map (\<lambda>p. if p_id p = ident then apply_patch p pt else p) (players s) \<rparr>"

text \<open>
  \<^verbatim>\<open>
  function onSave() {
    const vals = tempBonus.map(Number);
    if (vals.some(v => !Number.isFinite(v))) return alert("...");
    const k = Number(tempTopK);
    if (!Number.isFinite(k) || k < 1 || k > players.length) return alert("...");
    setRankBonus(vals); setTopK(k); setShowSettings(false);
  }
  \<close>
\<close>

definition SettingsDialog_onSave ::
  "app_state \<Rightarrow> string list \<Rightarrow> string \<Rightarrow> app_state \<times> message option" where
  "SettingsDialog_onSave s tempBonus tempTopK =
     (case those (map Number_js tempBonus) of
        None \<Rightarrow> (s, Some MsgBonus)
      | Some vals \<Rightarrow>
          (case Number_js tempTopK of
             None \<Rightarrow> (s, Some MsgTopK)
           | Some k \<Rightarrow>
               if k < 1 \<or> k > real (length (players s)) then (s, Some MsgTopK)
               else (s\<lparr> rankBonus := vals, topK := k, showSettings := False \<rparr>, None)))"

definition revertToDefault :: "app_state \<Rightarrow> bool \<Rightarrow> app_state" where
  "revertToDefault s confirmed =
     (if \<not> confirmed then s
      else s\<lparr> players := [], playerScores := Map.empty, rounds := [], rankBonus := EMPTY_BONUS,
              topK := 4, showSettings := False \<rparr>)"

text \<open>
  \<^verbatim>\<open>
  async function handleConfirmAddPlayer() {
    if (!newPlayerName.trim()) return;
    if (await checkPassword(newPlayerName.trim())) {
      setShowAddPlayer(false); setShowSharkySelect(true); setSharkySelected([]);
      return;
    }
    const id = `p${Date.now()}`;
    setPlayers(prev => {
      const next = [...prev, { id, name: newPlayerName.trim(), avatar: newPlayerAvatar, note: "" }];
      setTopK(Math.ceil(next.length / 2));
      return next;
    });
    setPlayerScores(prev => ({ ...prev, [id]: 0 }));
    setShowAddPlayer(false);
  }
  \<close>
  \<^verbatim>\<open>checkPassword\<close> compares a SHA-256 digest of the name with a constant; the digest is
  not modelled and the outcome of the comparison is the input \<open>isPassword\<close>.
\<close>

definition handleConfirmAddPlayer ::
  "app_state \<Rightarrow> string \<Rightarrow> string \<Rightarrow> nat \<Rightarrow> bool \<Rightarrow> app_state" where
  "handleConfirmAddPlayer s newPlayerName newPlayerAvatar now isPassword =
     (if trim newPlayerName = [] then s
      else if isPassword then
        s\<lparr> showAddPlayer := False, showSharkySelect := True, sharkySelected := [] \<rparr>
      else
        let ident = ''p'' @ string_of_nat now;
            next = players s @
              [\<lparr> p_id = ident, p_name = trim newPlayerName, p_avatar = newPlayerAvatar,
                 p_note = '''' \<rparr>]
        in s\<lparr> players := next,
              topK := of_int \<lceil>real (length next) / 2\<rceil>,
              playerScores := (playerScores s)(ident \<mapsto> 0),
              showAddPlayer := False \<rparr>)"

text \<open>
  The selection screen behind the password: a button per default player toggles its id in
  \<^verbatim>\<open>sharkySelected\<close>; the finishing button is disabled while nothing is selected, and
  otherwise appends the selected default players and sets their ledger entries to 0.
\<close>

definition sharkyToggle :: "app_state \<Rightarrow> string \<Rightarrow> app_state" where
  "sharkyToggle s ident =
     s\<lparr> sharkySelected :=
          (if ident \<in> set (sharkySelected s) then filter (\<lambda>i. i \<noteq> ident) (sharkySelected s)
           else sharkySelected s @ [ident]) \<rparr>"

definition sharkyDone :: "app_state \<Rightarrow> app_state" where
  "sharkyDone s =
     (if sharkySelected s = [] then s
      else
        let selectedPlayers = filter (\<lambda>p. p_id p \<in> set (sharkySelected s)) DEFAULT_PLAYERS;
            next = players s @ selectedPlayers
        in s\<lparr> players := next,
              topK := of_int \<lceil>real (length next) / 2\<rceil>,
              playerScores := fold (\<lambda>p nxt. nxt(p_id p \<mapsto> 0)) selectedPlayers (playerScores s),
              showSharkySelect := False,
              sharkySelected := [] \<rparr>)"

text \<open>
  \<^verbatim>\<open>
  if (window.confirm(...)) {
    setPlayers(prev => prev.filter(pl => pl.id !== p.id));
    setPlayerScores(prev => { const next = { ...prev }; delete next[p.id]; return next; });
  }
  \<close>
\<close>

definition removePlayer :: "app_state \<Rightarrow> string \<Rightarrow> bool \<Rightarrow> app_state" where
  "removePlayer s ident confirmed =
     (if \<not> confirmed then s
      else s\<lparr> players := filter (\<lambda>pl. p_id pl \<noteq> ident) (players s),
              playerScores := (playerScores s)(ident := None) \<rparr>)"

subsection \<open>The leaderboard\<close>

text \<open>
  \<^verbatim>\<open>
  const playerBoard = useMemo(() => players
      .map(p => ({ key: p.id, name: p.name, avatar: p.avatar, score: playerScores[p.id] || 0 }))
      .sort((a, b) => b.score - a.score), [players, playerScores]);
  \<close>
\<close>

record board_row =
  key :: string
  name :: string
  avatar :: string
  score :: real

definition player_row :: "(string \<rightharpoonup> real) \<Rightarrow> player \<Rightarrow> board_row" where
  "player_row scores p =
     \<lparr> key = p_id p, name = p_name p, avatar = p_avatar p, score = ledger_get scores (p_id p) \<rparr>"

definition playerBoard :: "'a core_state_scheme \<Rightarrow> board_row list" where
  "playerBoard s =
     js_sort (\<lambda>a b. score b - score a) (map (player_row (playerScores s)) (players s))"

text \<open>
  \<^verbatim>\<open>Leaderboard\<close> of \<^verbatim>\<open>src/App.jsx\<close> renders \<^verbatim>\<open>items.slice(0, k)\<close> as highlighted rows
  numbered from 1, a divider, and \<^verbatim>\<open>items.slice(k)\<close> as plain rows numbered from \<open>k + 1\<close>,
  with \<^verbatim>\<open>k = isGroup ? 2 : topK\<close>. The result is the rows above and the rows below the
  divider, each row with its number, its item and its highlight flag.
\<close>

definition numbered :: "real \<Rightarrow> bool \<Rightarrow> 'a list \<Rightarrow> (real \<times> 'a \<times> bool) list" where
  "numbered offset highlight xs =
     map (\<lambda>(it, i). (real i + offset, it, highlight)) (zip xs [0..<length xs])"

definition Leaderboard ::
  "'a list \<Rightarrow> bool \<Rightarrow> real \<Rightarrow> (real \<times> 'a \<times> bool) list \<times> (real \<times> 'a \<times> bool) list" where
  "Leaderboard items isGroup k0 =
     (let k = (if isGroup then 2 else k0)
      in (if isGroup then numbered 1 True (js_slice items 0 (Some 2))
          else numbered 1 True (js_slice items 0 (Some k)),
          if isGroup then numbered 3 False (js_slice items 2 None)
          else numbered (k + 1) False (js_slice items k None)))"

subsection \<open>Runs of \<^verbatim>\<open>src/App.jsx\<close>\<close>

text \<open>
  The operations on the tournament state as events; an event that asks for confirmation
  stands for the confirmed action.
\<close>

datatype app_event =
    SaveRound nat string "string quad" "string quad"
  | SaveSettings "string list" string
  | ResetAll
  | RevertToDefault
  | UpdatePlayer string patch
  | ConfirmAddPlayer string string nat bool
  | SharkyToggle string
  | SharkyDone
  | RemovePlayer string

fun app_step :: "app_state \<Rightarrow> app_event \<Rightarrow> app_state" where
  "app_step s (SaveRound now isoTime seat raws) = fst (RoundDialog_onSave s now isoTime seat raws)"
| "app_step s (SaveSettings tempBonus tempTopK) = fst (SettingsDialog_onSave s tempBonus tempTopK)"
| "app_step s ResetAll = resetAll s True"
| "app_step s RevertToDefault = revertToDefault s True"
| "app_step s (UpdatePlayer ident pt) = handleUpdatePlayer s ident pt"
| "app_step s (ConfirmAddPlayer newPlayerName newPlayerAvatar now isPassword) =
     handleConfirmAddPlayer s newPlayerName newPlayerAvatar now isPassword"
| "app_step s (SharkyToggle ident) = sharkyToggle s ident"
| "app_step s SharkyDone = sharkyDone s"
| "app_step s (RemovePlayer ident) = removePlayer s ident True"

fun app_run :: "app_state \<Rightarrow> app_event list \<Rightarrow> app_state" where
  "app_run s [] = s"
| "app_run s (e # es) = app_run (app_step s e) es"

text \<open>
  The ledger invariant of the specification: every entry of the ledger is the sum of the
  deltas of that player over the breakdowns of all committed rounds.
\<close>

definition round_pids :: "round list \<Rightarrow> string list" where
  "round_pids rs = map pid (concat (map breakdown rs))"

definition round_total :: "round list \<Rightarrow> string \<Rightarrow> real" where
  "round_total rs p = sum_list (map delta (filter (\<lambda>b. pid b = p) (concat (map breakdown rs))))"

definition ledger_inv :: "'a core_state_scheme \<Rightarrow> bool" where
  "ledger_inv s =
     (\<forall>p \<in> dom (playerScores s). playerScores s p = Some (round_total (rounds s) p))"

definition roster_in_ledger :: "'a core_state_scheme \<Rightarrow> bool" where
  "roster_in_ledger s = (\<forall>pl \<in> set (players s). p_id pl \<in> dom (playerScores s))"

text \<open>
  What the page offers: the seats of the round dialog are chosen among the current players
  (or left empty), a remove button exists for each current player, and the selection screen
  has a button for each default player.
\<close>

fun offered :: "app_state \<Rightarrow> app_event \<Rightarrow> bool" where
  "offered s (SaveRound now isoTime seat raws) =
     list_all (\<lambda>p. p = [] \<or> p \<in> p_id ` set (players s)) (quad_list seat)"
| "offered s (RemovePlayer ident) = (ident \<in> p_id ` set (players s))"
| "offered s (SharkyToggle ident) = (ident \<in> p_id ` set DEFAULT_PLAYERS)"
| "offered s e = True"

text \<open>
  An event that adds no player whose id occurs in a committed round: the confirmation of
  the add-player dialog, when it adds a player at all, adds the id made from the clock; the
  finishing button of the selection screen adds the selected default players.
\<close>

fun adds_unplayed :: "app_state \<Rightarrow> app_event \<Rightarrow> bool" where
  "adds_unplayed s (ConfirmAddPlayer newPlayerName newPlayerAvatar now isPassword) =
     (trim newPlayerName = [] \<or> isPassword \<or>
      ''p'' @ string_of_nat now \<notin> set (round_pids (rounds s)))"
| "adds_unplayed s SharkyDone =
     list_all (\<lambda>i. i \<notin> set (round_pids (rounds s))) (sharkySelected s)"
| "adds_unplayed s e = True"

fun run_ok :: "app_state \<Rightarrow> app_event list \<Rightarrow> bool" where
  "run_ok s [] = True"
| "run_ok s (e # es) = (offered s e \<and> adds_unplayed s e \<and> run_ok (app_step s e) es)"

subsection \<open>Handlers of the earlier snapshot with groups\<close>

text \<open>
  The default players of this snapshot are the first 8 of the 9 of \<^verbatim>\<open>src/App.jsx\<close>, with the
  same ids, names and avatars.
\<close>

definition DEFAULT_PLAYERS_grp :: "player list" where
  "DEFAULT_PLAYERS_grp = take 8 DEFAULT_PLAYERS"

definition EMPTY_BONUS_grp :: "real list" where
  "EMPTY_BONUS_grp = [20, 10, - 10, - 20]"

definition DEFAULT_GROUPS :: "group list" where
  "DEFAULT_GROUPS =
     [\<lparr> g_id = ''g1'', g_name = ''Group A'', members = [] \<rparr>,
      \<lparr> g_id = ''g2'', g_name = ''Group B'', members = [] \<rparr>,
      \<lparr> g_id = ''g3'', g_name = ''Group C'', members = [] \<rparr>,
      \<lparr> g_id = ''g4'', g_name = ''Group D'', members = [] \<rparr>]"

definition initial_grp_state :: grp_state where
  "initial_grp_state =
     \<lparr> players = DEFAULT_PLAYERS_grp,
       playerScores = fromEntries (map (\<lambda>p. (p_id p, 0)) DEFAULT_PLAYERS_grp),
       rounds = [], rankBonus = EMPTY_BONUS_grp, showRoundDialog = False, showSettings = False,
       groupsEnabled = False, groups = DEFAULT_GROUPS, showGroupSetup = False \<rparr>"

definition anyRounds :: "'a core_state_scheme \<Rightarrow> bool" where
  "anyRounds s = (length (rounds s) > 0)"

definition resetAll_grp :: "grp_state \<Rightarrow> bool \<Rightarrow> grp_state" where
  "resetAll_grp s confirmed =
     (if \<not> confirmed then s
      else s\<lparr> playerScores := fromEntries (map (\<lambda>p. (p_id p, 0)) (players s)), rounds := [],
              groupsEnabled := False, groups := DEFAULT_GROUPS \<rparr>)"

definition SettingsDialog_onSave_grp ::
  "grp_state \<Rightarrow> string list \<Rightarrow> grp_state \<times> message option" where
  "SettingsDialog_onSave_grp s tempBonus =
     (case those (map Number_js tempBonus) of
        None \<Rightarrow> (s, Some MsgBonus)
      | Some vals \<Rightarrow> (s\<lparr> rankBonus := vals, showSettings := False \<rparr>, None))"

definition revertToDefault_grp :: "grp_state \<Rightarrow> bool \<Rightarrow> grp_state" where
  "revertToDefault_grp s confirmed =
     (if \<not> confirmed then s
      else s\<lparr> players := DEFAULT_PLAYERS_grp,
              playerScores := fromEntries (map (\<lambda>p. (p_id p, 0)) DEFAULT_PLAYERS_grp),
              rounds := [], rankBonus := EMPTY_BONUS_grp, groupsEnabled := False,
              groups := DEFAULT_GROUPS, showSettings := False \<rparr>)"

text \<open>
  \<^verbatim>\<open>
  function GroupSetupButton() {
    const disabled = anyRounds; // lock grouping after games start
    return <button onClick={() => setShowGroupSetup(true)} disabled={disabled} ...>
  }
  \<close>
  A click on a disabled button runs no handler.
\<close>

definition GroupSetupButton_onClick :: "grp_state \<Rightarrow> grp_state" where
  "GroupSetupButton_onClick s = (if anyRounds s then s else s\<lparr> showGroupSetup := True \<rparr>)"

text \<open>
  \<^verbatim>\<open>
  function onSave() {
    if (enabled) {
      const total = draftGroups.reduce((a, g) => a + g.members.length, 0);
      if (total !== 8) { return alert("..."); }
    }
    setGroupsEnabled(enabled);
    setGroups(draftGroups.map(g => ({ ...g, members: [...g.members] })));
    setShowGroupSetup(false);
  }
  \<close>
  The check box and the draft groups of the dialog are the arguments.
\<close>

definition GroupSetupDialog_onSave ::
  "grp_state \<Rightarrow> bool \<Rightarrow> group list \<Rightarrow> grp_state \<times> message option" where
  "GroupSetupDialog_onSave s enabled draftGroups =
     (if enabled \<and> foldl (\<lambda>a g. a + length (members g)) 0 draftGroups \<noteq> 8
      then (s, Some MsgGroups)
      else (s\<lparr> groupsEnabled := enabled, groups := draftGroups, showGroupSetup := False \<rparr>,
            None))"

text \<open>
  The page as a machine: the three header buttons, the save and close buttons of the three
  dialogs, the two reset buttons of the settings dialog, and the name field and avatar
  upload of a player card. A dialog's buttons exist while
  the dialog is shown; the header buttons are part of the page throughout.
\<close>

datatype grp_event =
    GClickGroupSetup
  | GClickAddRound
  | GClickSettings
  | GSaveRound nat string "string quad" "string quad"
  | GSaveGroups bool "group list"
  | GSaveSettings "string list"
  | GResetAll
  | GRevertToDefault
  | GUpdatePlayer string patch
  | GCloseGroupSetup
  | GCloseRoundDialog
  | GCloseSettings

fun grp_step :: "grp_state \<Rightarrow> grp_event \<Rightarrow> grp_state" where
  "grp_step s GClickGroupSetup = GroupSetupButton_onClick s"
| "grp_step s GClickAddRound = s\<lparr> showRoundDialog := True \<rparr>"
| "grp_step s GClickSettings = s\<lparr> showSettings := True \<rparr>"
| "grp_step s (GSaveRound now isoTime seat raws) =
     (if showRoundDialog s then fst (RoundDialog_onSave_grp s now isoTime seat raws) else s)"
| "grp_step s (GSaveGroups enabled draftGroups) =
     (if showGroupSetup s then fst (GroupSetupDialog_onSave s enabled draftGroups) else s)"
| "grp_step s (GSaveSettings tempBonus) =
     (if showSettings s then fst (SettingsDialog_onSave_grp s tempBonus) else s)"
| "grp_step s GResetAll = (if showSettings s then resetAll_grp s True else s)"
| "grp_step s GRevertToDefault = (if showSettings s then revertToDefault_grp s True else s)"
| "grp_step s (GUpdatePlayer ident pt) = handleUpdatePlayer s ident pt"
| "grp_step s GCloseGroupSetup = (if showGroupSetup s then s\<lparr> showGroupSetup := False \<rparr> else s)"
| "grp_step s GCloseRoundDialog =
     (if showRoundDialog s then s\<lparr> showRoundDialog := False \<rparr> else s)"
| "grp_step s GCloseSettings = (if showSettings s then s\<lparr> showSettings := False \<rparr> else s)"

fun grp_run :: "grp_state \<Rightarrow> grp_event list \<Rightarrow> grp_state" where
  "grp_run s [] = s"
| "grp_run s (e # es) = grp_run (grp_step s e) es"

text \<open>A draft with all 8 default players in 4 groups of 2.\<close>

definition full_groups :: "group list" where
  "full_groups =
     [\<lparr> g_id = ''g1'', g_name = ''Group A'', members = [''p1'', ''p2''] \<rparr>,
      \<lparr> g_id = ''g2'', g_name = ''Group B'', members = [''p3'', ''p4''] \<rparr>,
      \<lparr> g_id = ''g3'', g_name = ''Group C'', members = [''p5'', ''p6''] \<rparr>,
      \<lparr> g_id = ''g4'', g_name = ''Group D'', members = [''p7'', ''p8''] \<rparr>]"

subsection \<open>Example runs\<close>

text \<open>A score of 309 digits, \<open>2 * 10^308\<close>: larger than every double.\<close>

definition huge_score :: string where
  "huge_score =
      ''20000000000000000000000000000000000000000000000000000000000000000000000000000000'' @
      ''00000000000000000000000000000000000000000000000000000000000000000000000000000000'' @
      ''00000000000000000000000000000000000000000000000000000000000000000000000000000000'' @
      ''000000000000000000000000000000000000000000000000000000000000000000000''"

text \<open>
  A round of four default players, and two runs of \<^verbatim>\<open>src/App.jsx\<close> from its initial
  state. In \<open>first_round_run\<close> the organizer types the password into the add-player dialog,
  selects the default players p1 to p4 on the selection screen, finishes, and saves one
  round. In \<open>readd_run\<close> the organizer then opens the selection screen again and adds the
  default player p1 a second time.
\<close>

definition seats1 :: "string quad" where
  "seats1 = (''p1'', ''p2'', ''p3'', ''p4'')"

definition raws1 :: "string quad" where
  "raws1 = (''45000'', ''33000'', ''12000'', ''10000'')"

definition first_round_run :: "app_event list" where
  "first_round_run =
     [ConfirmAddPlayer ''password'' '''' 0 True,
      SharkyToggle ''p1'', SharkyToggle ''p2'', SharkyToggle ''p3'', SharkyToggle ''p4'',
      SharkyDone,
      SaveRound 1 ''t'' seats1 raws1]"

definition readd_run :: "app_event list" where
  "readd_run =
     first_round_run @
     [ConfirmAddPlayer ''password'' '''' 2 True, SharkyToggle ''p1'', SharkyDone]"

text \<open>
  \<open>board_run\<close>: after \<open>first_round_run\<close>, two players are added through the add-player
  dialog.
\<close>

definition board_run :: "app_event list" where
  "board_run =
     first_round_run @
     [ConfirmAddPlayer ''Ann'' '''' 13 False, ConfirmAddPlayer ''Bob'' '''' 14 False]"

text \<open>
  A run of the earlier snapshot: the grouping dialog is opened before any round exists and
  left open, the round dialog is opened and a round is saved.
\<close>

definition open_then_round_run :: "grp_event list" where
  "open_then_round_run =
     [GClickGroupSetup, GClickAddRound, GSaveRound 1 ''t'' seats1 raws1]"

text \<open>A run of the earlier snapshot that only saves a round.\<close>

definition round_only_run :: "grp_event list" where
  "round_only_run = [GClickAddRound, GSaveRound 1 ''t'' seats1 raws1]"

text \<open>An attempt to change the grouping through the page, and a change of the settings.\<close>

definition attempt_run :: "grp_event list" where
  "attempt_run =
     [GClickGroupSetup, GSaveGroups True full_groups, GClickSettings,
      GSaveSettings [''30'', ''10'', ''-10'', ''-30'']]"

subsection \<open>Auxiliary notions of the proofs\<close>

text \<open>
  The position of an element in a list that holds it, and the rank of an element among the
  elements of a list under a key: the number of elements with a smaller key plus the number
  of elements in front of it with the same key.
\<close>

definition pos_of :: "'a \<Rightarrow> 'a list \<Rightarrow> nat" where
  "pos_of x ys = length (takeWhile (\<lambda>y. y \<noteq> x) ys)"

definition rank_in :: "('a \<Rightarrow> real) \<Rightarrow> 'a \<Rightarrow> 'a list \<Rightarrow> nat" where
  "rank_in f x xs =
     length (filter (\<lambda>y. f y < f x) xs) +
     length (filter (\<lambda>y. f y = f x) (takeWhile (\<lambda>y. y \<noteq> x) xs))"

section \<open>Proofs\<close>

lemmas scoring_defs =
  computeRoundDeltas_def rankIndexByPid_def sorted_by_raw_def js_sort_def fromEntries_def
  bonus_at_def rank_spec_def Let_def

subsection \<open>The ranking is the stable sort by raw score\<close>

lemma js_insert_insort:
  "js_insert (\<lambda>a b. f b - f a) x ys = insort_key (\<lambda>e. - f e) x ys"
  by (induction ys) auto

lemma js_sort_sort_key: "js_sort (\<lambda>a b. f b - f a) xs = sort_key (\<lambda>e. - f e) xs"
  unfolding js_sort_def sort_key_def
  by (induction xs) (auto simp: js_insert_insort)

lemma sorted_by_raw_sort_key: "sorted_by_raw xs = sort_key (\<lambda>e. - raw e) xs"
  unfolding sorted_by_raw_def by (rule js_sort_sort_key)

lemma fold_upd_map_of: "fold (\<lambda>(k, v) m. m(k \<mapsto> v)) kvs m = m ++ map_of (rev kvs)"
  by (induction kvs arbitrary: m) (auto simp: map_add_upd_left)

lemma fromEntries_map_of: "fromEntries kvs = map_of (rev kvs)"
  by (simp add: fromEntries_def fold_upd_map_of)

lemma map_of_rev_distinct:
  "distinct (map fst kvs) \<Longrightarrow> map_of (rev kvs) = map_of kvs"
proof (induction kvs)
  case Nil
  then show ?case by simp
next
  case (Cons kv kvs)
  obtain k v where kv: "kv = (k, v)" by (cases kv)
  from Cons.prems kv have notin: "k \<notin> fst ` set kvs" and d: "distinct (map fst kvs)"
    by auto
  have "map_of (rev (kv # kvs)) = [k \<mapsto> v] ++ map_of kvs"
    using Cons.IH [OF d] by (simp add: kv)
  also have "\<dots> = map_of kvs ++ [k \<mapsto> v]"
    by (rule map_add_comm) (use notin in \<open>simp add: dom_map_of_conv_image_fst\<close>)
  finally show ?case by (simp add: kv)
qed

lemma pos_of_less: "x \<in> set ys \<Longrightarrow> pos_of x ys < length ys"
  unfolding pos_of_def by (induction ys) auto

lemma nth_pos_of: "x \<in> set ys \<Longrightarrow> ys ! pos_of x ys = x"
  unfolding pos_of_def by (induction ys) auto

lemma pos_of_nth: "distinct ys \<Longrightarrow> k < length ys \<Longrightarrow> pos_of (ys ! k) ys = k"
  unfolding pos_of_def
proof (induction ys arbitrary: k)
  case Nil
  then show ?case by simp
next
  case (Cons y ys)
  then show ?case by (cases k) auto
qed

lemma take_pos_of:
  "distinct ys \<Longrightarrow> k < length ys \<Longrightarrow> takeWhile (\<lambda>y. y \<noteq> ys ! k) ys = take k ys"
  using pos_of_nth [of ys k] takeWhile_eq_take [of "\<lambda>y. y \<noteq> ys ! k" ys]
  by (simp add: pos_of_def)

lemma pos_insort_new:
  "sorted (map f ys) \<Longrightarrow> a \<notin> set ys \<Longrightarrow>
   pos_of a (insort_key f a ys) = length (filter (\<lambda>y. f y < f a) ys)"
  unfolding pos_of_def
proof (induction ys)
  case Nil
  then show ?case by simp
next
  case (Cons y ys)
  show ?case
  proof (cases "f a \<le> f y")
    case True
    with Cons.prems have "\<forall>z \<in> set (y # ys). \<not> f z < f a" by fastforce
    then have "filter (\<lambda>z. f z < f a) (y # ys) = []"
      by (auto simp: filter_empty_conv)
    with True show ?thesis by simp
  next
    case False
    with Cons show ?thesis by auto
  qed
qed

lemma pos_insort_old:
  "sorted (map f ys) \<Longrightarrow> x \<in> set ys \<Longrightarrow> x \<noteq> a \<Longrightarrow>
   pos_of x (insort_key f a ys) = pos_of x ys + (if f a \<le> f x then 1 else 0)"
  unfolding pos_of_def
proof (induction ys)
  case Nil
  then show ?case by simp
next
  case (Cons y ys)
  show ?case
  proof (cases "f a \<le> f y")
    case True
    from Cons.prems have "f y \<le> f x" by auto
    with True Cons.prems show ?thesis by auto
  next
    case False
    with Cons show ?thesis by auto
  qed
qed

lemma length_filter_sort_key: "length (filter P (sort_key f xs)) = length (filter P xs)"
proof -
  have "size (filter_mset P (mset (sort_key f xs))) = size (filter_mset P (mset xs))"
    by simp
  then show ?thesis by (simp only: mset_filter [symmetric] size_mset)
qed

lemma pos_sort_key:
  "distinct xs \<Longrightarrow> x \<in> set xs \<Longrightarrow> pos_of x (sort_key f xs) = rank_in f x xs"
proof (induction xs)
  case Nil
  then show ?case by simp
next
  case (Cons a xs)
  have srt: "sorted (map f (sort_key f xs))" by simp
  have step: "sort_key f (a # xs) = insort_key f a (sort_key f xs)"
    by (simp add: sort_key_def)
  show ?case
  proof (cases "x = a")
    case True
    from Cons.prems have "a \<notin> set (sort_key f xs)" by simp
    from pos_insort_new [OF srt this]
    have "pos_of a (sort_key f (a # xs)) = length (filter (\<lambda>y. f y < f a) xs)"
      by (simp only: step length_filter_sort_key)
    with True show ?thesis by (simp add: rank_in_def)
  next
    case False
    with Cons.prems have xin: "x \<in> set xs" and d: "distinct xs" by auto
    from xin have "x \<in> set (sort_key f xs)" by simp
    from pos_insort_old [OF srt this False]
    have "pos_of x (sort_key f (a # xs)) = rank_in f x xs + (if f a \<le> f x then 1 else 0)"
      by (simp only: step Cons.IH [OF d xin])
    with False show ?thesis by (auto simp: rank_in_def)
  qed
qed

lemma distinct_pid: "distinct (map pid es) \<Longrightarrow> distinct es"
  by (simp add: distinct_map)

lemma rankIndexByPid_pos:
  assumes d: "distinct (map pid es)" and x: "x \<in> set es"
  shows "rankIndexByPid es (pid x) = Some (pos_of x (sorted_by_raw es))"
proof -
  let ?ys = "sorted_by_raw es"
  have ys: "?ys = sort_key (\<lambda>e. - raw e) es" by (rule sorted_by_raw_sort_key)
  have "mset (map pid ?ys) = mset (map pid es)" by (simp add: ys)
  with d have dys: "distinct (map pid ?ys)"
    by (metis mset_eq_imp_distinct_iff)
  from x have xin: "x \<in> set ?ys" by (simp add: ys)
  let ?k = "pos_of x ?ys"
  have k: "?k < length ?ys" by (rule pos_of_less [OF xin])
  have "map_of (zip (map pid ?ys) [0..<length ?ys]) (map pid ?ys ! ?k) =
        Some ([0..<length ?ys] ! ?k)"
    by (rule map_of_zip_nth) (use dys k in simp_all)
  with k have "map_of (zip (map pid ?ys) [0..<length ?ys]) (pid x) = Some ?k"
    by (simp add: nth_pos_of [OF xin])
  moreover have "distinct (map fst (zip (map pid ?ys) [0..<length ?ys]))"
    using dys by simp
  ultimately show ?thesis
    by (simp add: rankIndexByPid_def Let_def fromEntries_map_of map_of_rev_distinct)
qed

lemma rankIndexByPid_nth:
  assumes d: "distinct (map pid es)" and i: "i < length es"
  shows "rankIndexByPid es (pid (es ! i)) = Some (rank_spec es i)"
proof -
  have des: "distinct es" by (rule distinct_pid [OF d])
  from i have x: "es ! i \<in> set es" by simp
  have "pos_of (es ! i) (sorted_by_raw es) = rank_in (\<lambda>e. - raw e) (es ! i) es"
    by (simp only: sorted_by_raw_sort_key pos_sort_key [OF des x])
  also have "\<dots> = rank_spec es i"
    by (simp add: rank_in_def rank_spec_def take_pos_of [OF des i])
  finally show ?thesis
    by (simp add: rankIndexByPid_pos [OF d x])
qed


lemma computeRoundDeltas_length: "length (computeRoundDeltas es rb) = length es"
  by (simp add: computeRoundDeltas_def Let_def)

lemma computeRoundDeltas_nth:
  assumes d: "distinct (map pid es)" and i: "i < length es"
  shows "computeRoundDeltas es rb ! i =
         \<lparr> pid = pid (es ! i), raw = raw (es ! i),
           delta = (raw (es ! i) - 30000) / 1000 + bonus_at rb (Some (rank_spec es i)),
           base = (raw (es ! i) - 30000) / 1000,
           bonus = bonus_at rb (Some (rank_spec es i)) \<rparr>"
  using i by (simp add: computeRoundDeltas_def Let_def rankIndexByPid_nth [OF d i])

lemma length_filter_take_mono:
  "m \<le> n \<Longrightarrow> length (filter P (take m xs)) \<le> length (filter P (take n xs))"
proof -
  assume "m \<le> n"
  then have "take n xs = take m xs @ take (n - m) (drop m xs)"
    using take_add [of m "n - m" xs] by simp
  then show ?thesis by simp
qed

lemma rank_spec_tie:
  assumes ij: "i < j" and j: "j < length es" and eq: "raw (es ! i) = raw (es ! j)"
  shows "rank_spec es i < rank_spec es j"
proof -
  let ?P = "\<lambda>e. raw e = raw (es ! j)"
  from ij j have "take (Suc i) es = take i es @ [es ! i]"
    by (simp add: take_Suc_conv_app_nth)
  then have "length (filter ?P (take (Suc i) es)) = Suc (length (filter ?P (take i es)))"
    by (simp add: eq)
  moreover from ij have "length (filter ?P (take (Suc i) es)) \<le> length (filter ?P (take j es))"
    by (intro length_filter_take_mono) simp
  ultimately show ?thesis by (simp add: rank_spec_def eq)
qed

lemma bonus_perm:
  assumes d: "distinct (map pid es)" and len: "length rb = length es"
  shows "mset (map bonus (computeRoundDeltas es rb)) = mset rb"
proof -
  let ?ys = "sorted_by_raw es"
  let ?g = "\<lambda>e. rb ! pos_of e ?ys"
  have ys: "?ys = sort_key (\<lambda>e. - raw e) es" by (rule sorted_by_raw_sort_key)
  have des: "distinct es" by (rule distinct_pid [OF d])
  have dys: "distinct ?ys" using des by (simp add: ys)
  have lys: "length ?ys = length rb" by (simp add: ys len)
  have "map bonus (computeRoundDeltas es rb) =
        map (\<lambda>e. bonus_at rb (rankIndexByPid es (pid e))) es"
    by (simp add: computeRoundDeltas_def Let_def)
  also have "\<dots> = map ?g es"
  proof (rule map_cong [OF refl])
    fix e assume e: "e \<in> set es"
    then have "e \<in> set ?ys" by (simp add: ys)
    from pos_of_less [OF this] have "pos_of e ?ys < length rb" by (simp add: lys)
    then show "bonus_at rb (rankIndexByPid es (pid e)) = ?g e"
      by (simp add: rankIndexByPid_pos [OF d e] bonus_at_def)
  qed
  finally have "mset (map bonus (computeRoundDeltas es rb)) = image_mset ?g (mset es)"
    by simp
  also have "\<dots> = image_mset ?g (mset ?ys)" by (simp add: ys)
  also have "\<dots> = mset (map ?g ?ys)" by simp
  finally have m: "mset (map bonus (computeRoundDeltas es rb)) = mset (map ?g ?ys)" .
  have "map ?g ?ys = rb"
    by (rule nth_equalityI) (simp_all add: lys pos_of_nth [OF dys])
  with m show ?thesis by simp
qed

lemma sum_base_bonus:
  "sum_list (map delta (computeRoundDeltas es rb)) =
   sum_list (map (\<lambda>e. (raw e - 30000) / 1000) es) +
   sum_list (map bonus (computeRoundDeltas es rb))"
  by (simp add: computeRoundDeltas_def Let_def comp_def sum_list_addf)

subsection \<open>Claims about the scoring engine\<close>



text \<open>
  Claim C2. The ranking is a stable sort on the seat order: of two seat entries with the
  same raw score (the player ids of the round being pairwise distinct), the one that comes
  first in the seat entries gets the smaller rank index. With the entries
  \<open>[{E,30000},{F,30000},{G,28000},{H,12000}]\<close> and the table \<open>[20,10,-10,-20]\<close>, the delta
  of E is 20 and the delta of F is 10.
\<close>

theorem rank_ties_follow_seat_order:
  assumes d: "distinct (map pid seatEntries)"
    and ij: "i < j" and j: "j < length seatEntries"
    and eq: "raw (seatEntries ! i) = raw (seatEntries ! j)"
  shows "(\<exists>ri rj. rankIndexByPid seatEntries (pid (seatEntries ! i)) = Some ri \<and>
                  rankIndexByPid seatEntries (pid (seatEntries ! j)) = Some rj \<and> ri < rj) \<and>
         delta (computeRoundDeltas test_seat2 test_bonus ! 0) = 20 \<and>
         delta (computeRoundDeltas test_seat2 test_bonus ! 1) = 10"
proof -
  from ij j have i: "i < length seatEntries" by simp
  have "rankIndexByPid seatEntries (pid (seatEntries ! i)) = Some (rank_spec seatEntries i)"
    by (rule rankIndexByPid_nth [OF d i])
  moreover
  have "rankIndexByPid seatEntries (pid (seatEntries ! j)) = Some (rank_spec seatEntries j)"
    by (rule rankIndexByPid_nth [OF d j])
  moreover have "rank_spec seatEntries i < rank_spec seatEntries j"
    by (rule rank_spec_tie [OF ij j eq])
  moreover have "delta (computeRoundDeltas test_seat2 test_bonus ! 0) = 20"
    by (simp add: scoring_defs test_seat2_def test_bonus_def)
  moreover have "delta (computeRoundDeltas test_seat2 test_bonus ! 1) = 10"
    by (simp add: scoring_defs test_seat2_def test_bonus_def)
  ultimately show ?thesis by simp
qed

theorem rank_ties_follow_seat_order_witness:
  "distinct (map pid test_seat2) \<and> (0::nat) < 1 \<and> 1 < length test_seat2 \<and>
   raw (test_seat2 ! 0) = raw (test_seat2 ! 1) \<and>
   rankIndexByPid test_seat2 ''E'' = Some 0 \<and> rankIndexByPid test_seat2 ''F'' = Some 1 \<and>
   delta (computeRoundDeltas test_seat2 test_bonus ! 0) = 20 \<and>
   delta (computeRoundDeltas test_seat2 test_bonus ! 1) = 10"
proof -
  have h1: "distinct (map pid test_seat2)" by (simp add: test_seat2_def)
  have h2: "(0::nat) < 1" by simp
  have h3: "1 < length test_seat2" by (simp add: test_seat2_def)
  have h4: "raw (test_seat2 ! 0) = raw (test_seat2 ! 1)" by (simp add: test_seat2_def)
  have e: "rankIndexByPid test_seat2 ''E'' = Some 0"
    by (simp add: scoring_defs test_seat2_def)
  have f: "rankIndexByPid test_seat2 ''F'' = Some 1"
    by (simp add: scoring_defs test_seat2_def)
  from rank_ties_follow_seat_order [OF h1 h2 h3 h4] show ?thesis
    using h1 h3 h4 e f by simp
qed

text \<open>The identity of the sums in the exact arithmetic of \<open>computeRoundDeltas\<close>.\<close>

lemma exact_delta_sum:
  assumes d: "distinct (map pid es)" and len: "length B = length es"
  shows "sum_list (map delta (computeRoundDeltas es B)) =
           sum_list (map (\<lambda>e. (raw e - 30000) / 1000) es) + sum_list B"
proof -
  have "mset (map bonus (computeRoundDeltas es B)) = mset B"
    by (rule bonus_perm [OF d len])
  then have "sum_mset (mset (map bonus (computeRoundDeltas es B))) = sum_mset (mset B)"
    by simp
  then have "sum_list (map bonus (computeRoundDeltas es B)) = sum_list B"
    by (simp only: sum_mset_sum_list)
  then show ?thesis by (simp add: sum_base_bonus)
qed

lemma bonus64_bonus:
  "map bonus64 (computeRoundDeltas64 es B) = map bonus (computeRoundDeltas es B)"
  by (simp add: computeRoundDeltas64_def computeRoundDeltas_def Let_def)

lemmas f64_defs = round64_def ilog2_def pow2_def round_half_even_def compute_floorlog

lemma rounding_seat_rank: "map (rank_spec rounding_seat) [0, 1, 2, 3] = [0, 1, 2, 3]"
  by (simp add: rank_spec_def rounding_seat_def)

lemma rounding_seat_bases:
  "map base64 (computeRoundDeltas64 rounding_seat test_bonus) =
     [Num (- (7656119366529843 / 2251799813685248)), Num (- (7 / 2)),
      Num (- (6980579422424269 / 1125899906842624)),
      Num (- (3884354678607053 / 562949953421312))]"
  by (simp add: computeRoundDeltas64_def rounding_seat_def f64_defs Let_def)

lemma rounding_seat_bonuses:
  "map bonus64 (computeRoundDeltas64 rounding_seat test_bonus) = [20, 10, - 10, - 20]"
  by (simp add: bonus64_bonus scoring_defs rounding_seat_def test_bonus_def)

lemma rounding_seat_deltas:
  "map delta64 (computeRoundDeltas64 rounding_seat test_bonus) =
     [Num (2336242306698445 / 140737488355328), Num (13 / 2),
      Num (- (4559894622712627 / 281474976710656)),
      Num (- (3785838436758323 / 140737488355328))]"
proof -
  have "map delta64 (computeRoundDeltas64 rounding_seat test_bonus) =
        map2 (\<lambda>b x. js_add b (Num x))
          (map base64 (computeRoundDeltas64 rounding_seat test_bonus))
          (map bonus64 (computeRoundDeltas64 rounding_seat test_bonus))"
    by (simp add: computeRoundDeltas64_def Let_def zip_map_map comp_def) (simp add: zip_same_conv_map)
  also have "\<dots> =
     [Num (2336242306698445 / 140737488355328), Num (13 / 2),
      Num (- (4559894622712627 / 281474976710656)),
      Num (- (3785838436758323 / 140737488355328))]"
    unfolding rounding_seat_bases rounding_seat_bonuses
    by (simp add: f64_defs Let_def)
  finally show ?thesis .
qed

subsection \<open>The rounding error of a delta\<close>

text \<open>
  The exponent found by \<open>ilog2\<close> is that of the binade; rounding to nearest moves a real in
  the normal range by at most the fraction \<open>2^-53\<close> of its magnitude; an integer below \<open>2^53\<close>
  is a double; and a double of magnitude at least \<open>2^-10\<close> is a multiple of \<open>2^-62\<close>. Hence,
  for an integer raw score and an integer bonus of magnitude at most \<open>2^52\<close>, the subtraction
  of 30000 is exact and the delta is a finite double within the fraction \<open>2^-51\<close> of
  \<open>|(r - 30000) / 1000| + |bonus|\<close> of the exact value.
\<close>

lemma pow2_powi: "pow2 e = 2 powi e"
  by (simp add: pow2_def power_int_def field_simps)

lemma pow2_pos: "0 < pow2 e"
  by (simp add: pow2_powi)

lemma pow2_add: "pow2 (a + b) = pow2 a * pow2 b"
  by (simp add: pow2_powi power_int_add)

lemma pow2_mono: "a \<le> b \<Longrightarrow> pow2 a \<le> pow2 b"
  by (simp add: pow2_powi power_int_increasing)

lemma pow2_less_imp: "pow2 a < pow2 b \<Longrightarrow> a < b"
  using pow2_mono [of b a] by (cases "a < b") auto

lemma pow2_nat: "pow2 (int n) = 2 ^ n"
  by (simp add: pow2_def)

lemma pow2_neg_nat: "pow2 (- int n) = 1 / 2 ^ n"
  by (simp add: pow2_powi power_int_minus inverse_eq_divide)

lemma ilog2_bounds:
  assumes "x \<noteq> 0"
  shows "pow2 (ilog2 x) \<le> \<bar>x\<bar>" and "\<bar>x\<bar> < pow2 (ilog2 x + 1)"
proof -
  have "pow2 (ilog2 x) \<le> \<bar>x\<bar> \<and> \<bar>x\<bar> < pow2 (ilog2 x + 1)"
  proof (cases "1 \<le> \<bar>x\<bar>")
    case True
    define n where "n = nat \<lfloor>\<bar>x\<bar>\<rfloor>"
    have n1: "0 < n" using True by (simp add: n_def)
    have nx: "real n \<le> \<bar>x\<bar>" "\<bar>x\<bar> < real n + 1"
      using True by (simp_all add: n_def)
    from floorlog_bounds [of n 2] n1
    have fb: "2 ^ (floorlog 2 n - 1) \<le> n" "n < 2 ^ floorlog 2 n" by simp_all
    have f1: "0 < floorlog 2 n" using n1 by (simp add: floorlog_def)
    have e: "ilog2 x = int (floorlog 2 n - 1)"
      using True f1 by (simp add: ilog2_def n_def)
    have "pow2 (ilog2 x) = 2 ^ (floorlog 2 n - 1)"
      unfolding e by (rule pow2_nat)
    also have "\<dots> \<le> real n" using fb(1) by (metis of_nat_le_iff of_nat_numeral of_nat_power)
    finally have a: "pow2 (ilog2 x) \<le> \<bar>x\<bar>" using nx(1) by linarith
    have "ilog2 x + 1 = int (floorlog 2 n)" using f1 by (simp add: e)
    then have "pow2 (ilog2 x + 1) = 2 ^ floorlog 2 n" by (simp add: pow2_nat)
    moreover have "real n + 1 \<le> 2 ^ floorlog 2 n"
      using fb(2) by (metis Suc_leI of_nat_Suc of_nat_le_iff of_nat_numeral of_nat_power add.commute)
    ultimately have "\<bar>x\<bar> < pow2 (ilog2 x + 1)" using nx(2) by linarith
    with a show ?thesis by simp
  next
    case False
    then have x1: "\<bar>x\<bar> < 1" and x0: "0 < \<bar>x\<bar>" using assms by simp_all
    define m where "m = nat (\<lceil>1 / \<bar>x\<bar>\<rceil> - 1)"
    have inv: "1 < 1 / \<bar>x\<bar>" using x0 x1 by simp
    then have c2: "2 \<le> \<lceil>1 / \<bar>x\<bar>\<rceil>" by linarith
    then have m1: "0 < m" by (simp add: m_def)
    have mb: "real m < 1 / \<bar>x\<bar>" "1 / \<bar>x\<bar> \<le> real m + 1"
      using c2 by (simp_all add: m_def) linarith+
    from floorlog_bounds [of m 2] m1
    have fb: "2 ^ (floorlog 2 m - 1) \<le> m" "m < 2 ^ floorlog 2 m" by simp_all
    have f1: "0 < floorlog 2 m" using m1 by (simp add: floorlog_def)
    have e: "ilog2 x = - int (floorlog 2 m)"
      using False by (simp add: ilog2_def m_def)
    have "real m + 1 \<le> 2 ^ floorlog 2 m"
      using fb(2) by (metis Suc_leI of_nat_Suc of_nat_le_iff of_nat_numeral of_nat_power add.commute)
    with mb(2) have "1 / \<bar>x\<bar> \<le> 2 ^ floorlog 2 m" by linarith
    then have "1 / 2 ^ floorlog 2 m \<le> \<bar>x\<bar>"
      using x0 by (simp add: field_simps)
    then have a: "pow2 (ilog2 x) \<le> \<bar>x\<bar>" by (simp add: e pow2_neg_nat)
    have "ilog2 x + 1 = - int (floorlog 2 m - 1)" using f1 by (simp add: e)
    then have p: "pow2 (ilog2 x + 1) = 1 / 2 ^ (floorlog 2 m - 1)" by (simp only: pow2_neg_nat)
    have "(2::real) ^ (floorlog 2 m - 1) \<le> real m"
      using fb(1) by (metis of_nat_le_iff of_nat_numeral of_nat_power)
    with mb(1) have "2 ^ (floorlog 2 m - 1) < 1 / \<bar>x\<bar>" by linarith
    then have "\<bar>x\<bar> < 1 / 2 ^ (floorlog 2 m - 1)"
      using x0 by (simp add: field_simps)
    with a p show ?thesis by simp
  qed
  then show "pow2 (ilog2 x) \<le> \<bar>x\<bar>" and "\<bar>x\<bar> < pow2 (ilog2 x + 1)" by simp_all
qed

lemma round_half_even_error: "\<bar>of_int (round_half_even q) - q\<bar> \<le> 1 / 2"
proof -
  define r where "r = q - of_int \<lfloor>q\<rfloor>"
  have r: "0 \<le> r" "r < 1" by (simp_all add: r_def) linarith
  have q: "q = of_int \<lfloor>q\<rfloor> + r" by (simp add: r_def)
  consider "r < 1 / 2" | "1 / 2 < r" | "r = 1 / 2" by linarith
  then show ?thesis
  proof cases
    case 1
    then have "round_half_even q = \<lfloor>q\<rfloor>"
      by (simp add: round_half_even_def Let_def r_def)
    with 1 r q show ?thesis by simp
  next
    case 2
    then have "round_half_even q = \<lfloor>q\<rfloor> + 1"
      by (simp add: round_half_even_def Let_def r_def)
    with 2 r q show ?thesis by simp
  next
    case 3
    then have "round_half_even q = \<lfloor>q\<rfloor> \<or> round_half_even q = \<lfloor>q\<rfloor> + 1"
      by (simp add: round_half_even_def Let_def r_def)
    with 3 q show ?thesis by auto
  qed
qed

lemma round_half_even_int: "round_half_even (of_int z) = z"
  by (simp add: round_half_even_def)


lemma below_overflow: "(2::real) ^ 55 < 2 ^ 1024 - 2 ^ 970"
  by simp

lemma pow2_m1022_le: "pow2 (- 1022) \<le> 1 / 2 ^ 62"
  using pow2_mono [of "- 1022" "- int 62"] by (simp only: pow2_neg_nat)

lemma round64_normal:
  assumes lo: "pow2 (- 1022) \<le> \<bar>x\<bar>" and hi: "\<bar>x\<bar> < 2 ^ 1024 - 2 ^ 970"
  shows "\<exists>r. round64 x = Num r \<and> \<bar>r - x\<bar> \<le> \<bar>x\<bar> / 2 ^ 53"
proof -
  have x0: "x \<noteq> 0" using lo pow2_pos [of "- 1022"] by auto
  define e where "e = ilog2 x"
  have b: "pow2 e \<le> \<bar>x\<bar>" "\<bar>x\<bar> < pow2 (e + 1)"
    using ilog2_bounds [OF x0] by (simp_all add: e_def)
  have "pow2 (- 1022) < pow2 (e + 1)" using lo b(2) by linarith
  then have e1: "- 1022 \<le> e" using pow2_less_imp [of "- 1022" "e + 1"] by simp
  define u where "u = pow2 (e - 52)"
  have u0: "0 < u" by (simp add: u_def pow2_pos)
  define k where "k = round_half_even (x / u)"
  have hi': "\<not> 2 ^ 1024 - 2 ^ 970 \<le> x" "\<not> x \<le> - (2 ^ 1024 - 2 ^ 970)"
    using hi by linarith+
  have r: "round64 x = Num (of_int k * u)"
    unfolding round64_def Let_def e_def [symmetric]
    using hi' x0 e1 by (simp only: if_False max_absorb1 u_def k_def)
  have "of_int k * u - x = u * (of_int k - x / u)"
    using u0 by (simp add: field_simps)
  then have "\<bar>of_int k * u - x\<bar> = u * \<bar>of_int k - x / u\<bar>"
    using u0 by (simp add: abs_mult)
  also have "\<dots> \<le> u * (1 / 2)"
    using round_half_even_error [of "x / u"] u0 unfolding k_def
    by (intro mult_left_mono) simp_all
  also have "u * (1 / 2) = pow2 e / 2 ^ 53"
  proof -
    have "u = pow2 e * pow2 (- int 52)" unfolding u_def using pow2_add [of e "- 52"] by simp
    then show ?thesis by (simp only: pow2_neg_nat) simp
  qed
  also have "\<dots> \<le> \<bar>x\<bar> / 2 ^ 53" using b(1) by (simp add: divide_right_mono)
  finally show ?thesis using r by blast
qed

lemma round64_grid:
  assumes lo: "1 / 2 ^ 10 \<le> \<bar>x\<bar>" and hi: "\<bar>x\<bar> < 2 ^ 1024 - 2 ^ 970"
  shows "\<exists>k::int. round64 x = Num (of_int k / 2 ^ 62)"
proof -
  have x0: "x \<noteq> 0" using lo by auto
  define e where "e = ilog2 x"
  have b: "pow2 e \<le> \<bar>x\<bar>" "\<bar>x\<bar> < pow2 (e + 1)"
    using ilog2_bounds [OF x0] by (simp_all add: e_def)
  have "pow2 (- int 10) < pow2 (e + 1)" using lo b(2) by (simp only: pow2_neg_nat)
  then have e1: "- 10 \<le> e" using pow2_less_imp [of "- int 10" "e + 1"] by simp
  then have e2: "- 1022 \<le> e" by simp
  define n where "n = nat (e + 10)"
  define u where "u = pow2 (e - 52)"
  define k where "k = round_half_even (x / u)"
  have "e - 52 = int n + (- int 62)" using e1 by (simp add: n_def)
  then have "u = pow2 (int n) * pow2 (- int 62)" unfolding u_def by (simp only: pow2_add)
  then have u: "u = 2 ^ n / 2 ^ 62" by (simp only: pow2_nat pow2_neg_nat) simp
  have hi': "\<not> 2 ^ 1024 - 2 ^ 970 \<le> x" "\<not> x \<le> - (2 ^ 1024 - 2 ^ 970)"
    using hi by linarith+
  have "round64 x = Num (of_int k * u)"
    unfolding round64_def Let_def e_def [symmetric]
    using hi' x0 e2 by (simp only: if_False max_absorb1 u_def k_def)
  also have "of_int k * u = of_int (k * 2 ^ n) / 2 ^ 62" by (simp add: u)
  finally show ?thesis by blast
qed

lemma round64_int_exact:
  assumes xz: "x \<in> \<int>" and xb: "\<bar>x\<bar> < 2 ^ 53"
  shows "round64 x = Num x"
proof (cases "x = 0")
  case True
  then show ?thesis by (simp add: round64_def)
next
  case False
  from xz obtain z :: int where z: "x = of_int z" by (auto elim: Ints_cases)
  with False have "z \<noteq> 0" by auto
  then have "1 \<le> \<bar>z\<bar>" by linarith
  then have x1: "1 \<le> \<bar>x\<bar>" unfolding z by (metis of_int_1_le_iff of_int_abs)
  define e where "e = ilog2 x"
  have b: "pow2 e \<le> \<bar>x\<bar>" "\<bar>x\<bar> < pow2 (e + 1)"
    using ilog2_bounds [OF False] by (simp_all add: e_def)
  have "pow2 0 < pow2 (e + 1)" using x1 b(2) by (simp add: pow2_def)
  then have e0: "0 \<le> e" using pow2_less_imp [of 0 "e + 1"] by simp
  have "pow2 e < pow2 (int 53)" using b(1) xb by (simp only: pow2_nat)
  then have e53: "e \<le> 52" using pow2_less_imp [of e "int 53"] by simp
  define n where "n = nat (52 - e)"
  define u where "u = pow2 (e - 52)"
  have "e - 52 = - int n" using e53 by (simp add: n_def)
  then have u: "u = 1 / 2 ^ n" unfolding u_def by (simp only: pow2_neg_nat)
  have "x / u = of_int (z * 2 ^ n)" by (simp add: u z)
  then have k: "round_half_even (x / u) = z * 2 ^ n" by (simp only: round_half_even_int)
  have "\<bar>x\<bar> < 2 ^ 1024 - 2 ^ 970" using xb below_overflow by simp
  then have hi': "\<not> 2 ^ 1024 - 2 ^ 970 \<le> x" "\<not> x \<le> - (2 ^ 1024 - 2 ^ 970)"
    by linarith+
  have e2: "- 1022 \<le> e" using e0 by simp
  have "round64 x = Num (of_int (round_half_even (x / u)) * u)"
    unfolding round64_def Let_def e_def [symmetric]
    using hi' False e2 by (simp only: if_False max_absorb1 u_def)
  also have "of_int (round_half_even (x / u)) * u = x" unfolding k by (simp add: u z)
  finally show ?thesis .
qed

lemma delta_error:
  assumes rz: "r \<in> \<int>" and rb: "\<bar>r\<bar> \<le> 2 ^ 52" and bz: "b \<in> \<int>" and bb: "\<bar>b\<bar> \<le> 2 ^ 52"
  shows "\<exists>d. js_add (js_div_by 1000 (js_add (Num r) (Num (- 30000)))) (Num b) = Num d \<and>
             \<bar>d - ((r - 30000) / 1000 + b)\<bar> \<le> (\<bar>(r - 30000) / 1000\<bar> + \<bar>b\<bar>) / 2 ^ 51"
proof -
  define x where "x = r - 30000"
  define y where "y = x / 1000"
  have xz: "x \<in> \<int>" using rz by (simp add: x_def)
  have xb: "\<bar>x\<bar> < 2 ^ 53" using rb by (simp add: x_def)
  have yb: "\<bar>y\<bar> < 2 ^ 53" using xb by (simp add: y_def)
  have s1: "js_add (Num r) (Num (- 30000)) = Num x"
    using round64_int_exact [OF xz xb] by (simp add: x_def)
  have "\<exists>\<beta> k. round64 y = Num \<beta> \<and> \<bar>\<beta> - y\<bar> \<le> \<bar>y\<bar> / 2 ^ 53 \<and> \<beta> = of_int k / 2 ^ 62"
  proof (cases "x = 0")
    case True
    then have "round64 y = Num 0 \<and> \<bar>0 - y\<bar> \<le> \<bar>y\<bar> / 2 ^ 53 \<and> (0::real) = of_int 0 / 2 ^ 62"
      by (simp add: y_def round64_def)
    then show ?thesis by blast
  next
    case False
    from xz obtain z :: int where z: "x = of_int z" by (auto elim: Ints_cases)
    with False have "z \<noteq> 0" by auto
    then have "1 \<le> \<bar>z\<bar>" by linarith
    then have "1 \<le> \<bar>x\<bar>" unfolding z by (metis of_int_1_le_iff of_int_abs)
    then have lo: "1 / 2 ^ 10 \<le> \<bar>y\<bar>" by (simp add: y_def)
    have hi: "\<bar>y\<bar> < 2 ^ 1024 - 2 ^ 970" using yb below_overflow by simp
    have "pow2 (- 1022) \<le> \<bar>y\<bar>" using pow2_m1022_le lo by simp
    from round64_normal [OF this hi] round64_grid [OF lo hi] show ?thesis by auto
  qed
  then obtain \<beta> and k :: int where base: "round64 y = Num \<beta>" "\<bar>\<beta> - y\<bar> \<le> \<bar>y\<bar> / 2 ^ 53"
    "\<beta> = of_int k / 2 ^ 62" by blast
  have s2: "js_div_by 1000 (Num x) = Num \<beta>" using base(1) by (simp add: y_def)
  have \<beta>b: "\<bar>\<beta>\<bar> \<le> 2 * \<bar>y\<bar>"
  proof -
    have "\<bar>y\<bar> / 2 ^ 53 \<le> \<bar>y\<bar>" by (simp add: field_simps)
    with base(2) show ?thesis by linarith
  qed
  define z where "z = \<beta> + b"
  have zb: "\<bar>z\<bar> \<le> 2 * \<bar>y\<bar> + \<bar>b\<bar>" using \<beta>b by (simp add: z_def)
  have "\<exists>d. round64 z = Num d \<and> \<bar>d - z\<bar> \<le> \<bar>z\<bar> / 2 ^ 53"
  proof (cases "z = 0")
    case True
    then show ?thesis by (simp add: round64_def)
  next
    case False
    from bz obtain c :: int where c: "b = of_int c" by (auto elim: Ints_cases)
    have zk: "z = of_int (k + c * 2 ^ 62) / 2 ^ 62" by (simp add: z_def base(3) c field_simps)
    with False have "k + c * 2 ^ 62 \<noteq> 0" by auto
    then have "1 \<le> \<bar>k + c * 2 ^ 62\<bar>" by linarith
    then have "(1::real) \<le> \<bar>of_int (k + c * 2 ^ 62)\<bar>" by (metis of_int_1_le_iff of_int_abs)
    then have "1 / 2 ^ 62 \<le> \<bar>z\<bar>" unfolding zk by (simp add: field_simps)
    with pow2_m1022_le have lo: "pow2 (- 1022) \<le> \<bar>z\<bar>" by linarith
    have "\<bar>z\<bar> < 2 ^ 55" using zb yb bb by simp
    with below_overflow have "\<bar>z\<bar> < 2 ^ 1024 - 2 ^ 970" by linarith
    from round64_normal [OF lo this] show ?thesis .
  qed
  then obtain d where d: "round64 z = Num d" "\<bar>d - z\<bar> \<le> \<bar>z\<bar> / 2 ^ 53" by blast
  have s3: "js_add (Num \<beta>) (Num b) = Num d" using d(1) by (simp add: z_def)
  have "\<bar>d - (y + b)\<bar> \<le> \<bar>d - z\<bar> + \<bar>\<beta> - y\<bar>" by (simp add: z_def)
  also have "\<dots> \<le> \<bar>z\<bar> / 2 ^ 53 + \<bar>y\<bar> / 2 ^ 53" using d(2) base(2) by linarith
  also have "\<dots> \<le> (2 * \<bar>y\<bar> + \<bar>b\<bar>) / 2 ^ 53 + \<bar>y\<bar> / 2 ^ 53"
    using zb by (simp add: divide_right_mono)
  also have "\<dots> \<le> (\<bar>y\<bar> + \<bar>b\<bar>) / 2 ^ 51" by (simp add: field_simps)
  finally have "\<bar>d - (y + b)\<bar> \<le> (\<bar>y\<bar> + \<bar>b\<bar>) / 2 ^ 51" .
  with s1 s2 s3 show ?thesis by (simp add: y_def x_def)
qed

text \<open>The errors of the four deltas add up.\<close>

lemma sum_delta_error:
  assumes "\<forall>e \<in> set es. raw e \<in> \<int> \<and> \<bar>raw e\<bar> \<le> 2 ^ 52 \<and> bn e \<in> \<int> \<and> \<bar>bn e\<bar> \<le> 2 ^ 52"
  shows "\<exists>ds. map (\<lambda>e. js_add (js_div_by 1000 (js_add (Num (raw e)) (Num (- 30000))))
                       (Num (bn e))) es = map Num ds \<and>
           \<bar>sum_list ds - sum_list (map (\<lambda>e. (raw e - 30000) / 1000 + bn e) es)\<bar> \<le>
             sum_list (map (\<lambda>e. (\<bar>(raw e - 30000) / 1000\<bar> + \<bar>bn e\<bar>) / 2 ^ 51) es)"
  using assms
proof (induction es)
  case Nil
  then show ?case by simp
next
  case (Cons e es)
  from Cons.prems have "raw e \<in> \<int>" "\<bar>raw e\<bar> \<le> 2 ^ 52" "bn e \<in> \<int>" "\<bar>bn e\<bar> \<le> 2 ^ 52"
    by simp_all
  from delta_error [OF this] obtain d where
    d: "js_add (js_div_by 1000 (js_add (Num (raw e)) (Num (- 30000)))) (Num (bn e)) = Num d"
       "\<bar>d - ((raw e - 30000) / 1000 + bn e)\<bar> \<le> (\<bar>(raw e - 30000) / 1000\<bar> + \<bar>bn e\<bar>) / 2 ^ 51"
    by blast
  from Cons.IH Cons.prems obtain ds where
    ds: "map (\<lambda>e. js_add (js_div_by 1000 (js_add (Num (raw e)) (Num (- 30000))))
                       (Num (bn e))) es = map Num ds"
        "\<bar>sum_list ds - sum_list (map (\<lambda>e. (raw e - 30000) / 1000 + bn e) es)\<bar> \<le>
             sum_list (map (\<lambda>e. (\<bar>(raw e - 30000) / 1000\<bar> + \<bar>bn e\<bar>) / 2 ^ 51) es)"
    by auto
  have "map (\<lambda>e. js_add (js_div_by 1000 (js_add (Num (raw e)) (Num (- 30000))))
                       (Num (bn e))) (e # es) = map Num (d # ds)"
    using d(1) ds(1) by simp
  moreover have "\<bar>sum_list (d # ds) -
        sum_list (map (\<lambda>e. (raw e - 30000) / 1000 + bn e) (e # es))\<bar> \<le>
      sum_list (map (\<lambda>e. (\<bar>(raw e - 30000) / 1000\<bar> + \<bar>bn e\<bar>) / 2 ^ 51) (e # es))"
  proof -
    define a where "a = d - ((raw e - 30000) / 1000 + bn e)"
    define c where "c = sum_list ds - sum_list (map (\<lambda>e. (raw e - 30000) / 1000 + bn e) es)"
    define A where "A = (\<bar>(raw e - 30000) / 1000\<bar> + \<bar>bn e\<bar>) / 2 ^ 51"
    define C where "C = sum_list (map (\<lambda>e. (\<bar>(raw e - 30000) / 1000\<bar> + \<bar>bn e\<bar>) / 2 ^ 51) es)"
    have le: "\<bar>a\<bar> \<le> A" "\<bar>c\<bar> \<le> C"
      using d(2) ds(2) unfolding a_def c_def A_def C_def by blast+
    have lhs: "sum_list (d # ds) -
        sum_list (map (\<lambda>e. (raw e - 30000) / 1000 + bn e) (e # es)) = a + c"
      unfolding a_def c_def by simp
    have rhs: "sum_list (map (\<lambda>e. (\<bar>(raw e - 30000) / 1000\<bar> + \<bar>bn e\<bar>) / 2 ^ 51) (e # es)) =
        A + C"
      unfolding A_def C_def by simp
    from le show ?thesis unfolding lhs rhs by linarith
  qed
  ultimately show ?case by blast
qed

lemma sum_list_div_const:
  "sum_list (map (\<lambda>e. f e / c) es) = sum_list (map f es) / (c::real)"
  by (induction es) (simp_all add: add_divide_distrib)

text \<open>
  Claim C5, as stated, fails in the arithmetic of the code. For the raw scores 26600,
  26500, 23800, 23100 and the table \<open>[20, 10, -10, -20]\<close> the four deltas are the doubles
  listed; their sum, taken exactly or taken in binary64 from left to right, is
  \<open>-5629499534213119 / 281474976710656\<close> (printed \<^verbatim>\<open>-19.999999999999996\<close>), while the sum
  of the \<open>(r - 30000) / 1000\<close> plus the sum of the table is -20, again exactly or in
  binary64 over the bases the code computes.
\<close>

theorem delta_sum_rounding_counterexample:
  "length rounding_seat = 4 \<and> distinct (map pid rounding_seat) \<and> length test_bonus = 4 \<and>
   map delta64 (computeRoundDeltas64 rounding_seat test_bonus) =
     [Num (2336242306698445 / 140737488355328), Num (13 / 2),
      Num (- (4559894622712627 / 281474976710656)),
      Num (- (3785838436758323 / 140737488355328))] \<and>
   (2336242306698445 / 140737488355328 + 13 / 2 - 4559894622712627 / 281474976710656
      - 3785838436758323 / 140737488355328 :: real) =
     - (5629499534213119 / 281474976710656) \<and>
   sum_list (map (\<lambda>e. (raw e - 30000) / 1000) rounding_seat) + sum_list test_bonus = - 20 \<and>
   js_sum (map delta64 (computeRoundDeltas64 rounding_seat test_bonus)) =
     Num (- (5629499534213119 / 281474976710656)) \<and>
   js_add (js_sum (map base64 (computeRoundDeltas64 rounding_seat test_bonus)))
     (js_sum (map Num test_bonus)) = Num (- 20) \<and>
   js_sum (map delta64 (computeRoundDeltas64 rounding_seat test_bonus)) \<noteq>
     js_add (js_sum (map base64 (computeRoundDeltas64 rounding_seat test_bonus)))
       (js_sum (map Num test_bonus))"
proof -
  have a: "length rounding_seat = 4 \<and> distinct (map pid rounding_seat) \<and> length test_bonus = 4"
    by (simp add: rounding_seat_def test_bonus_def)
  have b: "(2336242306698445 / 140737488355328 + 13 / 2 - 4559894622712627 / 281474976710656
      - 3785838436758323 / 140737488355328 :: real) = - (5629499534213119 / 281474976710656)"
    by simp
  have c: "sum_list (map (\<lambda>e. (raw e - 30000) / 1000) rounding_seat) + sum_list test_bonus = - 20"
    by (simp add: rounding_seat_def test_bonus_def)
  have d: "js_sum (map delta64 (computeRoundDeltas64 rounding_seat test_bonus)) =
     Num (- (5629499534213119 / 281474976710656))"
    unfolding rounding_seat_deltas by (simp add: js_sum_def f64_defs Let_def)
  have e: "js_add (js_sum (map base64 (computeRoundDeltas64 rounding_seat test_bonus)))
     (js_sum (map Num test_bonus)) = Num (- 20)"
    unfolding rounding_seat_bases by (simp add: js_sum_def test_bonus_def f64_defs Let_def)
  from a b c d e rounding_seat_deltas show ?thesis by simp
qed

text \<open>
  Claim C5, amended. For 4 seat entries with pairwise distinct player ids and a 4-entry
  table \<open>B\<close>, the records come in seat order, the four bonuses are the four entries of \<open>B\<close>,
  each used exactly once, every base is the binary64 value of \<open>(r - 30000) / 1000\<close> and
  every delta is the binary64 sum of its base and its bonus. The sum identity holds of the
  values before rounding: the exact \<open>(r - 30000) / 1000\<close> plus the bonus of the record,
  summed over the four records, is the sum of the \<open>(r - 30000) / 1000\<close> plus the sum of \<open>B\<close>.
  Of the deltas the code returns it holds up to rounding: when the raw scores and the
  entries of \<open>B\<close> are integers of magnitude at most \<open>2^52\<close>, the four deltas are finite
  doubles, and their exact sum differs from the sum of the \<open>(r - 30000) / 1000\<close> plus the sum
  of \<open>B\<close> by at most the fraction \<open>2^-51\<close> of the sum of the \<open>|(r - 30000) / 1000|\<close> plus the
  sum of the \<open>|b|\<close>, \<open>b\<close> in \<open>B\<close>.
\<close>

theorem bonuses_are_the_table_permuted:
  assumes len: "length seatEntries = 4"
    and d: "distinct (map pid seatEntries)"
    and tb: "length B = 4"
  shows "mset (map bonus64 (computeRoundDeltas64 seatEntries B)) = mset B \<and>
         map pid (computeRoundDeltas64 seatEntries B) = map pid seatEntries \<and>
         map base64 (computeRoundDeltas64 seatEntries B) =
           map (\<lambda>e. js_div_by 1000 (js_add (Num (raw e)) (Num (- 30000)))) seatEntries \<and>
         map delta64 (computeRoundDeltas64 seatEntries B) =
           map (\<lambda>r. js_add (base64 r) (Num (bonus64 r))) (computeRoundDeltas64 seatEntries B) \<and>
         sum_list (map (\<lambda>r. (raw r - 30000) / 1000 + bonus64 r)
             (computeRoundDeltas64 seatEntries B)) =
           sum_list (map (\<lambda>e. (raw e - 30000) / 1000) seatEntries) + sum_list B \<and>
         ((\<forall>e \<in> set seatEntries. raw e \<in> \<int> \<and> \<bar>raw e\<bar> \<le> 2 ^ 52) \<and>
          (\<forall>b \<in> set B. b \<in> \<int> \<and> \<bar>b\<bar> \<le> 2 ^ 52) \<longrightarrow>
            (\<exists>ds. map delta64 (computeRoundDeltas64 seatEntries B) = map Num ds \<and>
               \<bar>sum_list ds - (sum_list (map (\<lambda>e. (raw e - 30000) / 1000) seatEntries) +
                                sum_list B)\<bar> \<le>
                 (sum_list (map (\<lambda>e. \<bar>(raw e - 30000) / 1000\<bar>) seatEntries) +
                  sum_list (map abs B)) / 2 ^ 51))"
proof -
  let ?ds = "computeRoundDeltas64 seatEntries B"
  let ?bn = "\<lambda>e. bonus_at B (rankIndexByPid seatEntries (pid e))"
  have m: "mset (map bonus64 ?ds) = mset B"
    unfolding bonus64_bonus by (rule bonus_perm [OF d]) (simp add: len tb)
  then have "sum_mset (mset (map bonus64 ?ds)) = sum_mset (mset B)" by simp
  then have sb: "sum_list (map bonus64 ?ds) = sum_list B"
    by (simp only: sum_mset_sum_list)
  have "map (\<lambda>r. (raw r - 30000) / 1000) ?ds = map (\<lambda>e. (raw e - 30000) / 1000) seatEntries"
    by (simp add: computeRoundDeltas64_def Let_def)
  then have ex: "sum_list (map (\<lambda>r. (raw r - 30000) / 1000 + bonus64 r) ?ds) =
      sum_list (map (\<lambda>e. (raw e - 30000) / 1000) seatEntries) + sum_list B"
    by (simp only: sum_list_addf sb)
  have bn: "map bonus64 ?ds = map ?bn seatEntries"
    by (simp add: computeRoundDeltas64_def Let_def)
  have dl: "map delta64 ?ds =
      map (\<lambda>e. js_add (js_div_by 1000 (js_add (Num (raw e)) (Num (- 30000)))) (Num (?bn e)))
        seatEntries"
    by (simp add: computeRoundDeltas64_def Let_def)
  have err: "\<exists>ds. map delta64 ?ds = map Num ds \<and>
      \<bar>sum_list ds - (sum_list (map (\<lambda>e. (raw e - 30000) / 1000) seatEntries) + sum_list B)\<bar> \<le>
        (sum_list (map (\<lambda>e. \<bar>(raw e - 30000) / 1000\<bar>) seatEntries) +
         sum_list (map abs B)) / 2 ^ 51"
    if rs: "\<forall>e \<in> set seatEntries. raw e \<in> \<int> \<and> \<bar>raw e\<bar> \<le> 2 ^ 52"
      and bs: "\<forall>b \<in> set B. b \<in> \<int> \<and> \<bar>b\<bar> \<le> 2 ^ 52"
  proof -
    from m have "set (map bonus64 ?ds) = set B" by (rule mset_eq_setD)
    then have "set (map ?bn seatEntries) = set B" by (simp only: bn)
    then have "\<forall>e \<in> set seatEntries. ?bn e \<in> set B" by auto
    with rs bs have "\<forall>e \<in> set seatEntries.
        raw e \<in> \<int> \<and> \<bar>raw e\<bar> \<le> 2 ^ 52 \<and> ?bn e \<in> \<int> \<and> \<bar>?bn e\<bar> \<le> 2 ^ 52"
      by blast
    from sum_delta_error [OF this] obtain ds where
      ds: "map delta64 ?ds = map Num ds"
        "\<bar>sum_list ds - sum_list (map (\<lambda>e. (raw e - 30000) / 1000 + ?bn e) seatEntries)\<bar> \<le>
           sum_list (map (\<lambda>e. (\<bar>(raw e - 30000) / 1000\<bar> + \<bar>?bn e\<bar>) / 2 ^ 51) seatEntries)"
      unfolding dl by blast
    have s1: "sum_list (map ?bn seatEntries) = sum_list B"
      using sb by (simp only: bn)
    from m have "image_mset abs (mset (map bonus64 ?ds)) = image_mset abs (mset B)" by simp
    then have "mset (map abs (map ?bn seatEntries)) = mset (map abs B)"
      by (simp only: mset_map bn)
    then have "sum_mset (mset (map abs (map ?bn seatEntries))) = sum_mset (mset (map abs B))"
      by simp
    then have s2: "sum_list (map (\<lambda>e. \<bar>?bn e\<bar>) seatEntries) = sum_list (map abs B)"
      by (simp only: sum_mset_sum_list map_map comp_def)
    have l: "sum_list (map (\<lambda>e. (raw e - 30000) / 1000 + ?bn e) seatEntries) =
        sum_list (map (\<lambda>e. (raw e - 30000) / 1000) seatEntries) + sum_list B"
      by (simp only: sum_list_addf s1)
    have r: "sum_list (map (\<lambda>e. (\<bar>(raw e - 30000) / 1000\<bar> + \<bar>?bn e\<bar>) / 2 ^ 51) seatEntries) =
        (sum_list (map (\<lambda>e. \<bar>(raw e - 30000) / 1000\<bar>) seatEntries) +
         sum_list (map abs B)) / 2 ^ 51"
      by (simp only: sum_list_div_const sum_list_addf s2)
    from ds show ?thesis unfolding l r by blast
  qed
  have "mset (map bonus64 ?ds) = mset B \<and>
         map pid ?ds = map pid seatEntries \<and>
         map base64 ?ds =
           map (\<lambda>e. js_div_by 1000 (js_add (Num (raw e)) (Num (- 30000)))) seatEntries \<and>
         map delta64 ?ds = map (\<lambda>r. js_add (base64 r) (Num (bonus64 r))) ?ds"
    using m by (simp add: computeRoundDeltas64_def Let_def)
  with ex err show ?thesis by blast
qed

theorem bonuses_are_the_table_permuted_witness:
  "length rounding_seat = 4 \<and> distinct (map pid rounding_seat) \<and> length test_bonus = 4 \<and>
   list_all (\<lambda>e. raw e \<in> \<int> \<and> \<bar>raw e\<bar> \<le> 2 ^ 52) rounding_seat \<and>
   list_all (\<lambda>b. b \<in> \<int> \<and> \<bar>b\<bar> \<le> 2 ^ 52) test_bonus \<and>
   mset (map bonus64 (computeRoundDeltas64 rounding_seat test_bonus)) = mset test_bonus \<and>
   map bonus64 (computeRoundDeltas64 rounding_seat test_bonus) = [20, 10, - 10, - 20] \<and>
   map pid (computeRoundDeltas64 rounding_seat test_bonus) = [''A'', ''B'', ''C'', ''D''] \<and>
   (\<exists>ds. map delta64 (computeRoundDeltas64 rounding_seat test_bonus) = map Num ds \<and>
      \<bar>sum_list ds - (- 20)\<bar> \<le> 80 / 2 ^ 51)"
proof -
  have h1: "length rounding_seat = 4" by (simp add: rounding_seat_def)
  have h2: "distinct (map pid rounding_seat)" by (simp add: rounding_seat_def)
  have h3: "length test_bonus = 4" by (simp add: test_bonus_def)
  have h4: "list_all (\<lambda>e. raw e \<in> \<int> \<and> \<bar>raw e\<bar> \<le> 2 ^ 52) rounding_seat"
    by (simp add: rounding_seat_def)
  have h5: "list_all (\<lambda>b. b \<in> \<int> \<and> \<bar>b\<bar> \<le> 2 ^ 52) test_bonus"
    by (simp add: test_bonus_def)
  have p: "map pid rounding_seat = [''A'', ''B'', ''C'', ''D'']" by (simp add: rounding_seat_def)
  have s1: "sum_list (map (\<lambda>e. (raw e - 30000) / 1000) rounding_seat) + sum_list test_bonus = - 20"
    by (simp add: rounding_seat_def test_bonus_def)
  have s2: "sum_list (map (\<lambda>e. \<bar>(raw e - 30000) / 1000\<bar>) rounding_seat) +
      sum_list (map abs test_bonus) = 80"
    by (simp add: rounding_seat_def test_bonus_def)
  from h4 have b4: "\<forall>e \<in> set rounding_seat. raw e \<in> \<int> \<and> \<bar>raw e\<bar> \<le> 2 ^ 52"
    by (simp only: list_all_iff)
  from h5 have b5: "\<forall>b \<in> set test_bonus. b \<in> \<int> \<and> \<bar>b\<bar> \<le> 2 ^ 52"
    by (simp only: list_all_iff)
  from bonuses_are_the_table_permuted [OF h1 h2 h3] b4 b5
  have "\<exists>ds. map delta64 (computeRoundDeltas64 rounding_seat test_bonus) = map Num ds \<and>
      \<bar>sum_list ds - (sum_list (map (\<lambda>e. (raw e - 30000) / 1000) rounding_seat) +
                       sum_list test_bonus)\<bar> \<le>
        (sum_list (map (\<lambda>e. \<bar>(raw e - 30000) / 1000\<bar>) rounding_seat) +
         sum_list (map abs test_bonus)) / 2 ^ 51"
    by blast
  then have e: "\<exists>ds. map delta64 (computeRoundDeltas64 rounding_seat test_bonus) = map Num ds \<and>
      \<bar>sum_list ds - (- 20)\<bar> \<le> 80 / 2 ^ 51"
    by (simp only: s1 s2)
  from bonuses_are_the_table_permuted [OF h1 h2 h3]
  have m: "mset (map bonus64 (computeRoundDeltas64 rounding_seat test_bonus)) = mset test_bonus"
    and q: "map pid (computeRoundDeltas64 rounding_seat test_bonus) = map pid rounding_seat"
    by blast+
  from h1 h2 h3 h4 h5 m q p rounding_seat_bonuses e show ?thesis by (simp only: simp_thms)
qed

text \<open>
  Claim C10. \<open>computeRoundDeltas\<close> returns one record per seat entry whatever the length of
  the rank-bonus table; a player whose rank index is not an index of the table gets the
  bonus 0, and the delta is then the base alone.
\<close>

theorem short_table_bonus_falls_back_to_zero:
  assumes d: "distinct (map pid seatWithRaw)"
    and i: "i < length seatWithRaw"
    and short: "length table \<le> rank_spec seatWithRaw i"
  shows "length (computeRoundDeltas seatWithRaw table) = length seatWithRaw \<and>
         rankIndexByPid seatWithRaw (pid (seatWithRaw ! i)) = Some (rank_spec seatWithRaw i) \<and>
         bonus (computeRoundDeltas seatWithRaw table ! i) = 0 \<and>
         delta (computeRoundDeltas seatWithRaw table ! i) =
           (raw (seatWithRaw ! i) - 30000) / 1000"
  using short
  by (simp add: computeRoundDeltas_length computeRoundDeltas_nth [OF d i]
      rankIndexByPid_nth [OF d i] bonus_at_def)

theorem short_table_witness:
  "distinct (map pid test_seat1) \<and> 3 < length test_seat1 \<and>
   length [20, 10 :: real] \<le> rank_spec test_seat1 3 \<and>
   map bonus (computeRoundDeltas test_seat1 [20, 10]) = [20, 10, 0, 0] \<and>
   delta (computeRoundDeltas test_seat1 [20, 10] ! 3) = - 10"
proof -
  have h1: "distinct (map pid test_seat1)" by (simp add: test_seat1_def)
  have h2: "3 < length test_seat1" by (simp add: test_seat1_def)
  have h3: "length [20, 10 :: real] \<le> rank_spec test_seat1 3"
    by (simp add: rank_spec_def test_seat1_def)
  have b: "map bonus (computeRoundDeltas test_seat1 [20, 10]) = [20, 10, 0, 0]"
    by (simp add: scoring_defs test_seat1_def)
  from short_table_bonus_falls_back_to_zero [OF h1 h2 h3]
  have "delta (computeRoundDeltas test_seat1 [20, 10] ! 3) = (raw (test_seat1 ! 3) - 30000) / 1000"
    by simp
  also have "\<dots> = - 10" by (simp add: test_seat1_def)
  finally show ?thesis using h1 h2 h3 b by simp
qed

subsection \<open>Claims about committing a round and the settings\<close>

lemma those_None_iff: "those (map f xs) = None \<longleftrightarrow> (\<exists>x \<in> set xs. f x = None)"
  by (induction xs) (auto split: option.splits)

lemma onSave_with_failed:
  "validate_fn seat raws = Some msg \<Longrightarrow>
   onSave_with validate_fn s now isoTime seat raws = (s, Some msg)"
  by (simp add: onSave_with_def)

lemma onSave_with_rounds:
  "\<exists>suffix. rounds (fst (onSave_with validate_fn s now isoTime seat raws)) = rounds s @ suffix"
  by (cases "validate_fn seat raws") (simp_all add: onSave_with_def Let_def)

lemmas eval_defs =
  validate_def validate_grp_def quad_list_def Number_js_def Number_value_def digit_of_def
  js_sum_def f64_defs Let_def

lemma validate_None_iff:
  "validate seat raws = None \<longleftrightarrow>
     length (remdups (filter (\<lambda>p. p \<noteq> []) (quad_list seat))) = 4 \<and>
     (\<exists>nums. those (map Number_js (quad_list raws)) = Some nums \<and>
             js_sum (map Num nums) = Num 100000)"
proof (cases "length (remdups (filter (\<lambda>p. p \<noteq> []) (quad_list seat))) = 4")
  case False
  then show ?thesis by (simp add: validate_def)
next
  case True
  then show ?thesis
    by (cases "those (map Number_js (quad_list raws))") (simp_all add: validate_def Let_def)
qed

lemma validate_grp_None_iff:
  "validate_grp seat raws = None \<longleftrightarrow>
     length (remdups (filter (\<lambda>p. p \<noteq> []) (quad_list seat))) = 4 \<and>
     those (map Number_js (quad_list raws)) \<noteq> None"
proof (cases "length (remdups (filter (\<lambda>p. p \<noteq> []) (quad_list seat))) = 4")
  case False
  then show ?thesis by (simp add: validate_grp_def)
next
  case True
  then show ?thesis
    by (cases "those (map Number_js (quad_list raws))") (simp_all add: validate_grp_def)
qed

lemma Number_js_None_iff:
  "Number_js v = None \<longleftrightarrow> Number_value v \<in> {NaN, PosInfinity, NegInfinity}"
  by (cases "Number_value v") (simp_all add: Number_js_def)

text \<open>\<^verbatim>\<open>Number\<close> rounds and overflows as doubles do.\<close>

lemma Number_js_examples:
  "Number_js ''45000'' = Some 45000"
  "Number_js '''' = Some 0"
  "Number_js ''-12'' = Some (- 12)"
  "Number_js ''33-000'' = None"
  "Number_js ''-'' = None"
  "Number_js ''9007199254740993'' = Some 9007199254740992"
  "Number_js ''-9007199254740992'' = Some (- 9007199254740992)"
  by (simp_all add: Number_js_def Number_value_def digit_of_def f64_defs Let_def)

lemma Number_value_huge: "Number_value huge_score = PosInfinity"
  by (simp add: huge_score_def Number_value_def digit_of_def round64_def)

lemma Number_js_huge: "Number_js huge_score = None"
  by (simp add: Number_js_def Number_value_huge)

text \<open>
  Four scores whose exact sum is 100001 and whose sum in binary64 is 100000: the first
  score is not a double, and the submission is accepted.
\<close>

lemma validate_sums_in_binary64:
  "validate (''p1'', ''p2'', ''p3'', ''p4'')
     (''9007199254740993'', ''-9007199254740992'', ''100000'', ''0'') = None"
  by (simp add: eval_defs)

text \<open>
  Claim C4. A round submission that fails validation changes nothing: the save handler
  returns the state it was given, rounds and ledger included, together with the message of
  the rule that failed, in both snapshots. The message names the rule: fewer than 4 distinct
  chosen players (a duplicate or an empty seat) gives the seat message; otherwise a score
  that is not a finite number (\<^verbatim>\<open>NaN\<close> or an infinity) gives the score message; otherwise,
  in \<^verbatim>\<open>src/App.jsx\<close>, a binary64 sum of the raw scores other than 100000 gives the sum
  message with the sum found. A submission that breaks none of these rules is the only one
  that passes.
\<close>

theorem failed_validation_changes_nothing:
  "(validate seat raws = Some msg \<longrightarrow>
      RoundDialog_onSave s now isoTime seat raws = (s, Some msg)) \<and>
   (validate_grp seat raws = Some msg \<longrightarrow>
      RoundDialog_onSave_grp g now isoTime seat raws = (g, Some msg)) \<and>
   (length (remdups (filter (\<lambda>p. p \<noteq> []) (quad_list seat))) \<noteq> 4 \<longrightarrow>
      validate seat raws = Some MsgSeats \<and> validate_grp seat raws = Some MsgSeats) \<and>
   (length (remdups (filter (\<lambda>p. p \<noteq> []) (quad_list seat))) = 4 \<and>
    (\<exists>v \<in> set (quad_list raws). Number_value v \<in> {NaN, PosInfinity, NegInfinity}) \<longrightarrow>
      validate seat raws = Some MsgScores \<and> validate_grp seat raws = Some MsgScores) \<and>
   (length (remdups (filter (\<lambda>p. p \<noteq> []) (quad_list seat))) = 4 \<and>
    those (map Number_js (quad_list raws)) = Some nums \<and>
    js_sum (map Num nums) \<noteq> Num 100000 \<longrightarrow>
      validate seat raws = Some (MsgSum (js_sum (map Num nums)))) \<and>
   (validate seat raws = None \<longleftrightarrow>
      length (remdups (filter (\<lambda>p. p \<noteq> []) (quad_list seat))) = 4 \<and>
      (\<exists>nums. those (map Number_js (quad_list raws)) = Some nums \<and>
              js_sum (map Num nums) = Num 100000)) \<and>
   (validate_grp seat raws = None \<longleftrightarrow>
      length (remdups (filter (\<lambda>p. p \<noteq> []) (quad_list seat))) = 4 \<and>
      those (map Number_js (quad_list raws)) \<noteq> None)"
proof (intro conjI impI)
  assume "validate seat raws = Some msg"
  then show "RoundDialog_onSave s now isoTime seat raws = (s, Some msg)"
    unfolding RoundDialog_onSave_def by (rule onSave_with_failed)
next
  assume "validate_grp seat raws = Some msg"
  then show "RoundDialog_onSave_grp g now isoTime seat raws = (g, Some msg)"
    unfolding RoundDialog_onSave_grp_def by (rule onSave_with_failed)
next
  assume "length (remdups (filter (\<lambda>p. p \<noteq> []) (quad_list seat))) \<noteq> 4"
  then show "validate seat raws = Some MsgSeats" "validate_grp seat raws = Some MsgSeats"
    by (simp_all add: validate_def validate_grp_def)
next
  assume a: "length (remdups (filter (\<lambda>p. p \<noteq> []) (quad_list seat))) = 4 \<and>
    (\<exists>v \<in> set (quad_list raws). Number_value v \<in> {NaN, PosInfinity, NegInfinity})"
  then have "\<exists>v \<in> set (quad_list raws). Number_js v = None"
    by (simp only: Number_js_None_iff)
  then have "those (map Number_js (quad_list raws)) = None"
    by (simp only: those_None_iff)
  with a show "validate seat raws = Some MsgScores" "validate_grp seat raws = Some MsgScores"
    by (simp_all add: validate_def validate_grp_def)
next
  assume "length (remdups (filter (\<lambda>p. p \<noteq> []) (quad_list seat))) = 4 \<and>
    those (map Number_js (quad_list raws)) = Some nums \<and>
    js_sum (map Num nums) \<noteq> Num 100000"
  then show "validate seat raws = Some (MsgSum (js_sum (map Num nums)))"
    by (simp add: validate_def Let_def)
next
  show "validate seat raws = None \<longleftrightarrow>
      length (remdups (filter (\<lambda>p. p \<noteq> []) (quad_list seat))) = 4 \<and>
      (\<exists>nums. those (map Number_js (quad_list raws)) = Some nums \<and>
              js_sum (map Num nums) = Num 100000)"
    by (rule validate_None_iff)
next
  show "validate_grp seat raws = None \<longleftrightarrow>
      length (remdups (filter (\<lambda>p. p \<noteq> []) (quad_list seat))) = 4 \<and>
      those (map Number_js (quad_list raws)) \<noteq> None"
    by (rule validate_grp_None_iff)
qed

theorem failed_validation_witness:
  "validate (''p1'', ''p2'', ''p3'', ''p1'') (''45000'', ''33000'', ''12000'', ''10000'') =
     Some MsgSeats \<and>
   RoundDialog_onSave initial_state 1 ''t'' (''p1'', ''p2'', ''p3'', ''p1'')
       (''45000'', ''33000'', ''12000'', ''10000'') = (initial_state, Some MsgSeats) \<and>
   validate_grp (''p1'', ''p2'', '''', ''p4'') (''45000'', ''33000'', ''12000'', ''10000'') =
     Some MsgSeats \<and>
   RoundDialog_onSave_grp initial_grp_state 1 ''t'' (''p1'', ''p2'', '''', ''p4'')
       (''45000'', ''33000'', ''12000'', ''10000'') = (initial_grp_state, Some MsgSeats) \<and>
   validate (''p1'', ''p2'', ''p3'', ''p4'') (''45000'', ''33-000'', ''12000'', ''10000'') =
     Some MsgScores \<and>
   RoundDialog_onSave initial_state 1 ''t'' (''p1'', ''p2'', ''p3'', ''p4'')
       (''45000'', ''33-000'', ''12000'', ''10000'') = (initial_state, Some MsgScores) \<and>
   validate (''p1'', ''p2'', ''p3'', ''p4'') (huge_score, ''33000'', ''12000'', ''10000'') =
     Some MsgScores \<and>
   RoundDialog_onSave initial_state 1 ''t'' (''p1'', ''p2'', ''p3'', ''p4'')
       (huge_score, ''33000'', ''12000'', ''10000'') = (initial_state, Some MsgScores) \<and>
   validate_grp (''p1'', ''p2'', ''p3'', ''p4'') (huge_score, ''33000'', ''12000'', ''10000'') =
     Some MsgScores \<and>
   RoundDialog_onSave_grp initial_grp_state 1 ''t'' (''p1'', ''p2'', ''p3'', ''p4'')
       (huge_score, ''33000'', ''12000'', ''10000'') = (initial_grp_state, Some MsgScores) \<and>
   validate (''p1'', ''p2'', ''p3'', ''p4'') (''45000'', ''33000'', ''12000'', '''') =
     Some (MsgSum (Num 90000)) \<and>
   RoundDialog_onSave initial_state 1 ''t'' (''p1'', ''p2'', ''p3'', ''p4'')
       (''45000'', ''33000'', ''12000'', '''') = (initial_state, Some (MsgSum (Num 90000)))"
proof -
  have v1: "validate (''p1'', ''p2'', ''p3'', ''p1'')
              (''45000'', ''33000'', ''12000'', ''10000'') = Some MsgSeats"
    by (simp add: validate_def quad_list_def)
  have v2: "validate_grp (''p1'', ''p2'', '''', ''p4'')
              (''45000'', ''33000'', ''12000'', ''10000'') = Some MsgSeats"
    by (simp add: validate_grp_def quad_list_def)
  have v3: "validate (''p1'', ''p2'', ''p3'', ''p4'')
              (''45000'', ''33-000'', ''12000'', ''10000'') = Some MsgScores"
    by (simp add: validate_def quad_list_def Number_js_examples)
  have v4: "validate (''p1'', ''p2'', ''p3'', ''p4'')
              (huge_score, ''33000'', ''12000'', ''10000'') = Some MsgScores"
    by (simp add: validate_def quad_list_def Number_js_huge)
  have v5: "validate_grp (''p1'', ''p2'', ''p3'', ''p4'')
              (huge_score, ''33000'', ''12000'', ''10000'') = Some MsgScores"
    by (simp add: validate_grp_def quad_list_def Number_js_huge)
  have v6: "validate (''p1'', ''p2'', ''p3'', ''p4'')
              (''45000'', ''33000'', ''12000'', '''') = Some (MsgSum (Num 90000))"
    by (simp add: eval_defs)
  from v1 v2 v3 v4 v5 v6
    failed_validation_changes_nothing [of "(''p1'', ''p2'', ''p3'', ''p1'')"
      "(''45000'', ''33000'', ''12000'', ''10000'')" MsgSeats initial_state 1 "''t''"]
    failed_validation_changes_nothing [of "(''p1'', ''p2'', '''', ''p4'')"
      "(''45000'', ''33000'', ''12000'', ''10000'')" MsgSeats _ 1 "''t''" initial_grp_state]
    failed_validation_changes_nothing [of "(''p1'', ''p2'', ''p3'', ''p4'')"
      "(''45000'', ''33-000'', ''12000'', ''10000'')" MsgScores initial_state 1 "''t''"]
    failed_validation_changes_nothing [of "(''p1'', ''p2'', ''p3'', ''p4'')"
      "(huge_score, ''33000'', ''12000'', ''10000'')" MsgScores initial_state 1 "''t''"
      initial_grp_state]
    failed_validation_changes_nothing [of "(''p1'', ''p2'', ''p3'', ''p4'')"
      "(''45000'', ''33000'', ''12000'', '''')" "MsgSum (Num 90000)" initial_state 1 "''t''"]
  show ?thesis by simp
qed

text \<open>
  Claim C8. Saving the settings, whether the save is accepted or refused, leaves the
  committed rounds (with their breakdowns) and the ledger as they were, in both snapshots;
  and a round saved after the settings only appends to the rounds that were there: no past
  round is recomputed with the new table.
\<close>

theorem settings_update_keeps_rounds_and_ledger:
  "rounds (fst (SettingsDialog_onSave s tempBonus tempTopK)) = rounds s \<and>
   playerScores (fst (SettingsDialog_onSave s tempBonus tempTopK)) = playerScores s \<and>
   rounds (fst (SettingsDialog_onSave_grp g tempBonus)) = rounds g \<and>
   playerScores (fst (SettingsDialog_onSave_grp g tempBonus)) = playerScores g \<and>
   (\<exists>suffix. rounds (fst (RoundDialog_onSave (fst (SettingsDialog_onSave s tempBonus tempTopK))
                  now isoTime seat raws)) = rounds s @ suffix) \<and>
   (\<exists>suffix. rounds (fst (RoundDialog_onSave_grp (fst (SettingsDialog_onSave_grp g tempBonus))
                  now isoTime seat raws)) = rounds g @ suffix)"
proof -
  have a: "rounds (fst (SettingsDialog_onSave s tempBonus tempTopK)) = rounds s"
    by (simp add: SettingsDialog_onSave_def split: option.splits)
  have b: "playerScores (fst (SettingsDialog_onSave s tempBonus tempTopK)) = playerScores s"
    by (simp add: SettingsDialog_onSave_def split: option.splits)
  have c: "rounds (fst (SettingsDialog_onSave_grp g tempBonus)) = rounds g"
    by (simp add: SettingsDialog_onSave_grp_def split: option.splits)
  have d: "playerScores (fst (SettingsDialog_onSave_grp g tempBonus)) = playerScores g"
    by (simp add: SettingsDialog_onSave_grp_def split: option.splits)
  from onSave_with_rounds [of validate "fst (SettingsDialog_onSave s tempBonus tempTopK)"
      now isoTime seat raws]
  have e: "\<exists>suffix. rounds (fst (RoundDialog_onSave
              (fst (SettingsDialog_onSave s tempBonus tempTopK)) now isoTime seat raws)) =
            rounds s @ suffix"
    by (simp only: a RoundDialog_onSave_def)
  from onSave_with_rounds [of validate_grp "fst (SettingsDialog_onSave_grp g tempBonus)"
      now isoTime seat raws]
  have f: "\<exists>suffix. rounds (fst (RoundDialog_onSave_grp
              (fst (SettingsDialog_onSave_grp g tempBonus)) now isoTime seat raws)) =
            rounds g @ suffix"
    by (simp only: c RoundDialog_onSave_grp_def)
  from a b c d e f show ?thesis by blast
qed

text \<open>
  Claim C9. A successful addition through the add-player confirmation handler (a name that
  is not blank and is not the password) appends the new player with the trimmed name, sets
  its ledger entry to 0, and sets \<open>topK\<close> to the new roster size divided by 2 and rounded
  up, whatever \<open>topK\<close> was before.
\<close>

theorem add_player_overwrites_topK:
  assumes nm: "trim newPlayerName \<noteq> []" and pw: "\<not> isPassword"
  shows "players (handleConfirmAddPlayer s newPlayerName newPlayerAvatar now isPassword) =
           players s @ [\<lparr> p_id = ''p'' @ string_of_nat now, p_name = trim newPlayerName,
                           p_avatar = newPlayerAvatar, p_note = '''' \<rparr>] \<and>
         playerScores (handleConfirmAddPlayer s newPlayerName newPlayerAvatar now isPassword) =
           (playerScores s)(''p'' @ string_of_nat now \<mapsto> 0) \<and>
         topK (handleConfirmAddPlayer s newPlayerName newPlayerAvatar now isPassword) =
           of_int \<lceil>real (length (players s) + 1) / 2\<rceil> \<and>
         handleConfirmAddPlayer (s\<lparr> topK := k \<rparr>) newPlayerName newPlayerAvatar now isPassword =
           handleConfirmAddPlayer s newPlayerName newPlayerAvatar now isPassword"
  using nm pw by (simp add: handleConfirmAddPlayer_def Let_def)

theorem add_player_overwrites_topK_witness:
  "trim ''  Bob '' \<noteq> [] \<and> \<not> False \<and>
   map p_name (players (handleConfirmAddPlayer (initial_state\<lparr> topK := 7 \<rparr>)
                  ''  Bob '' '''' 5 False)) = [''Bob''] \<and>
   playerScores (handleConfirmAddPlayer (initial_state\<lparr> topK := 7 \<rparr>) ''  Bob '' '''' 5 False)
     (''p'' @ string_of_nat 5) = Some 0 \<and>
   topK (handleConfirmAddPlayer (initial_state\<lparr> topK := 7 \<rparr>) ''  Bob '' '''' 5 False) = 1"
proof -
  have h1: "trim ''  Bob '' \<noteq> []" by (simp add: trim_def is_space_def)
  have h2: "\<not> False" by simp
  have t: "trim ''  Bob '' = ''Bob''" by (simp add: trim_def is_space_def)
  have c: "\<lceil>(1::real) / 2\<rceil> = 1" by (simp add: ceiling_eq_iff)
  from add_player_overwrites_topK [OF h1 h2, of "initial_state\<lparr> topK := 7 \<rparr>" "''''" 5 7]
  show ?thesis
    by (simp add: t c initial_state_def)
qed

subsection \<open>Evaluation of the example runs\<close>

lemma upt_0_4: "[0..<4] = [0, 1, 2, 3]"
  by (simp add: upt_rec)

lemma seatWithRaw_of_1:
  "seatWithRaw_of seats1 raws1 =
     [\<lparr>pid = ''p1'', raw = 45000, idx = 0\<rparr>, \<lparr>pid = ''p2'', raw = 33000, idx = 1\<rparr>,
      \<lparr>pid = ''p3'', raw = 12000, idx = 2\<rparr>, \<lparr>pid = ''p4'', raw = 10000, idx = 3\<rparr>]"
  by (simp add: seatWithRaw_of_def seats1_def raws1_def quad_list_def upt_0_4
      Number_checked_def Number_js_def Number_value_def digit_of_def f64_defs Let_def)

lemma deltas_1:
  "computeRoundDeltas (seatWithRaw_of seats1 raws1) EMPTY_BONUS =
     [\<lparr>pid = ''p1'', raw = 45000, delta = 50, base = 15, bonus = 35\<rparr>,
      \<lparr>pid = ''p2'', raw = 33000, delta = 13, base = 3, bonus = 10\<rparr>,
      \<lparr>pid = ''p3'', raw = 12000, delta = - 28, base = - 18, bonus = - 10\<rparr>,
      \<lparr>pid = ''p4'', raw = 10000, delta = - 40, base = - 20, bonus = - 20\<rparr>]"
  unfolding seatWithRaw_of_1 by (simp add: scoring_defs EMPTY_BONUS_def)

lemma validate_1: "validate seats1 raws1 = None" "validate_grp seats1 raws1 = None"
  by (simp_all add: eval_defs seats1_def raws1_def)

lemmas run_simps =
  handleConfirmAddPlayer_def sharkyToggle_def sharkyDone_def DEFAULT_PLAYERS_def
  RoundDialog_onSave_def onSave_with_def add_deltas_def ledger_get_def
  initial_state_def trim_def is_space_def validate_1 deltas_1 fromEntries_def Let_def

lemmas grp_run_simps =
  RoundDialog_onSave_grp_def onSave_with_def validate_1 Let_def
  GroupSetupButton_onClick_def GroupSetupDialog_onSave_def anyRounds_def
  initial_grp_state_def full_groups_def

lemma app_run_append: "app_run s (es @ fs) = app_run (app_run s es) fs"
  by (induction es arbitrary: s) simp_all

lemma grp_run_append: "grp_run s (es @ fs) = grp_run (grp_run s es) fs"
  by (induction es arbitrary: s) simp_all

subsection \<open>The leaderboard\<close>

lemma slice_index_0: "slice_index len 0 = 0"
  by (simp add: slice_index_def js_trunc_def)

lemma slice_index_le: "slice_index len r \<le> len"
  by (auto simp: slice_index_def Let_def)

lemma slice_index_nat: "slice_index len (real n) = min n len"
  by (simp add: slice_index_def js_trunc_def)

lemma js_slice_split: "js_slice xs 0 (Some k) @ js_slice xs k None = xs"
  using slice_index_le [of "length xs" k]
  by (simp add: js_slice_def Let_def slice_index_0)

lemma js_slice_take: "js_slice xs 0 (Some (real n)) = take n xs"
  by (cases "n \<le> length xs")
    (simp_all add: js_slice_def Let_def slice_index_0 slice_index_nat min_def)

lemma js_slice_drop: "js_slice xs (real n) None = drop n xs"
  by (simp add: js_slice_def Let_def slice_index_nat min_def)

lemma numbered_items: "map (fst \<circ> snd) (numbered offset highlight xs) = xs"
proof -
  have "map (fst \<circ> snd) (numbered offset highlight xs) = map fst (zip xs [0..<length xs])"
    by (simp add: numbered_def comp_def case_prod_beta)
  then show ?thesis by simp
qed

lemma numbered_numbers:
  "map fst (numbered offset highlight xs) = map (\<lambda>i. real i + offset) [0..<length xs]"
  by (rule nth_equalityI) (simp_all add: numbered_def)

lemma numbered_flags:
  "map (snd \<circ> snd) (numbered offset highlight xs) = replicate (length xs) highlight"
  by (simp add: numbered_def comp_def case_prod_beta map_replicate_const)

lemma playerBoard_sort_key:
  "playerBoard s = sort_key (\<lambda>r. - score r) (map (player_row (playerScores s)) (players s))"
  unfolding playerBoard_def by (rule js_sort_sort_key)

lemma player_row_fields:
  "map (\<lambda>r. (key r, name r, avatar r, score r)) (map (player_row scores) ps) =
   map (\<lambda>p. (p_id p, p_name p, p_avatar p, case scores (p_id p) of None \<Rightarrow> 0 | Some v \<Rightarrow> v)) ps"
  by (simp add: player_row_def ledger_get_def)

text \<open>
  Claim C6. The player leaderboard lists one row per roster player, with the player's id,
  name and avatar and the player's ledger score, 0 when the ledger has no entry. The rows
  are in descending order of score, and the rows of one score are in the order of the
  roster. The board does not depend on \<open>topK\<close>; \<open>topK\<close> only places the divider: with
  \<open>topK = n\<close> the first \<open>n\<close> rows of the board stand above the divider, highlighted and
  numbered from 1, the other rows below it, not highlighted and numbered from \<open>n + 1\<close>, and
  for every \<open>topK\<close> the rows above followed by the rows below are the board.
\<close>

theorem playerBoard_sorted_stable_and_topK_only_divides:
  "mset (map (\<lambda>r. (key r, name r, avatar r, score r)) (playerBoard s)) =
     mset (map (\<lambda>p. (p_id p, p_name p, p_avatar p,
                      case playerScores s (p_id p) of None \<Rightarrow> 0 | Some v \<Rightarrow> v)) (players s)) \<and>
   length (playerBoard s) = length (players s) \<and>
   sorted_wrt (\<lambda>a b. score b \<le> score a) (playerBoard s) \<and>
   (\<forall>v. map (\<lambda>r. (key r, name r, avatar r, score r))
           (filter (\<lambda>r. score r = v) (playerBoard s)) =
         map (\<lambda>p. (p_id p, p_name p, p_avatar p,
                   case playerScores s (p_id p) of None \<Rightarrow> 0 | Some w \<Rightarrow> w))
           (filter (\<lambda>p. (case playerScores s (p_id p) of None \<Rightarrow> 0 | Some w \<Rightarrow> w) = v)
              (players s))) \<and>
   playerBoard (s\<lparr> topK := k \<rparr>) = playerBoard s \<and>
   map (fst \<circ> snd) (fst (Leaderboard (playerBoard s) False k)) @
     map (fst \<circ> snd) (snd (Leaderboard (playerBoard s) False k)) = playerBoard s \<and>
   map (fst \<circ> snd) (fst (Leaderboard (playerBoard s) False (real n))) =
     take n (playerBoard s) \<and>
   map (fst \<circ> snd) (snd (Leaderboard (playerBoard s) False (real n))) =
     drop n (playerBoard s) \<and>
   map fst (fst (Leaderboard (playerBoard s) False (real n))) =
     map (\<lambda>i. real i + 1) [0..<min n (length (players s))] \<and>
   map fst (snd (Leaderboard (playerBoard s) False (real n))) =
     map (\<lambda>i. real i + real n + 1) [0..<length (players s) - n] \<and>
   map (snd \<circ> snd) (fst (Leaderboard (playerBoard s) False (real n))) =
     replicate (min n (length (players s))) True \<and>
   map (snd \<circ> snd) (snd (Leaderboard (playerBoard s) False (real n))) =
     replicate (length (players s) - n) False"
proof -
  let ?rows = "map (player_row (playerScores s)) (players s)"
  let ?T = "\<lambda>r. (key r, name r, avatar r, score r)"
  let ?S = "\<lambda>p. case playerScores s (p_id p) of None \<Rightarrow> 0 | Some w \<Rightarrow> w"
  let ?P = "\<lambda>p. (p_id p, p_name p, p_avatar p, ?S p)"
  have rows: "map ?T ?rows = map ?P (players s)"
    by (rule player_row_fields)
  have "mset (playerBoard s) = mset ?rows"
    by (simp add: playerBoard_sort_key)
  then have "image_mset ?T (mset (playerBoard s)) = image_mset ?T (mset ?rows)"
    by (rule arg_cong)
  then have "mset (map ?T (playerBoard s)) = mset (map ?T ?rows)"
    by (simp only: mset_map)
  then have a: "mset (map ?T (playerBoard s)) = mset (map ?P (players s))"
    by (simp only: rows)
  have b: "length (playerBoard s) = length (players s)"
    by (simp add: playerBoard_sort_key)
  have "sorted (map (\<lambda>r. - score r) (playerBoard s))"
    by (simp add: playerBoard_sort_key)
  then have c: "sorted_wrt (\<lambda>a b. score b \<le> score a) (playerBoard s)"
    by (simp add: sorted_map)
  have d: "map ?T (filter (\<lambda>r. score r = v) (playerBoard s)) =
           map ?P (filter (\<lambda>p. ?S p = v) (players s))" for v
  proof -
    have "filter (\<lambda>r. score r = v) (playerBoard s) = filter (\<lambda>r. score r = v) ?rows"
      using sort_key_stable [of "\<lambda>r. - score r" "- v" ?rows]
      by (simp add: playerBoard_sort_key)
    also have "\<dots> = map (player_row (playerScores s)) (filter (\<lambda>p. ?S p = v) (players s))"
      by (simp add: filter_map comp_def player_row_def ledger_get_def)
    finally show ?thesis
      by (simp only: player_row_fields)
  qed
  have e: "playerBoard (s\<lparr> topK := k \<rparr>) = playerBoard s"
    by (simp add: playerBoard_def)
  have f: "map (fst \<circ> snd) (fst (Leaderboard (playerBoard s) False k)) @
     map (fst \<circ> snd) (snd (Leaderboard (playerBoard s) False k)) = playerBoard s"
    by (simp add: Leaderboard_def numbered_items js_slice_split del: map_map)
  have g: "map (fst \<circ> snd) (fst (Leaderboard (playerBoard s) False (real n))) =
             take n (playerBoard s)"
    "map (fst \<circ> snd) (snd (Leaderboard (playerBoard s) False (real n))) =
             drop n (playerBoard s)"
    by (simp_all add: Leaderboard_def numbered_items js_slice_take js_slice_drop del: map_map)
  have h: "map fst (fst (Leaderboard (playerBoard s) False (real n))) =
             map (\<lambda>i. real i + 1) [0..<min n (length (players s))]"
    "map fst (snd (Leaderboard (playerBoard s) False (real n))) =
             map (\<lambda>i. real i + real n + 1) [0..<length (players s) - n]"
    by (simp_all add: Leaderboard_def numbered_numbers js_slice_take js_slice_drop b
        min.commute add.assoc)
  have i: "map (snd \<circ> snd) (fst (Leaderboard (playerBoard s) False (real n))) =
             replicate (min n (length (players s))) True"
    "map (snd \<circ> snd) (snd (Leaderboard (playerBoard s) False (real n))) =
             replicate (length (players s) - n) False"
    by (simp_all add: Leaderboard_def numbered_flags js_slice_take js_slice_drop b min.commute
        del: map_map)
  from a b c d e f g h i show ?thesis by blast
qed

text \<open>
  The board after \<open>first_round_run\<close> followed by the addition of two players through the
  add-player dialog, who tie at 0: the rows are p1, p2, the two new players in roster
  order, p3, p4; with the \<open>topK\<close> of that state, 3, the divider stands after three rows.
\<close>

theorem playerBoard_witness:
  "map score (playerBoard (app_run initial_state board_run)) = [50, 13, 0, 0, - 28, - 40] \<and>
   map name (playerBoard (app_run initial_state board_run)) =
     [''Sitaowex'', ''Len Ozora'', ''Ann'', ''Bob'', ''TT'', ''Lakto''] \<and>
   topK (app_run initial_state board_run) = 3 \<and>
   map (name \<circ> fst \<circ> snd) (fst (Leaderboard (playerBoard (app_run initial_state board_run))
       False (topK (app_run initial_state board_run)))) = [''Sitaowex'', ''Len Ozora'', ''Ann''] \<and>
   map (name \<circ> fst \<circ> snd) (snd (Leaderboard (playerBoard (app_run initial_state board_run))
       False (topK (app_run initial_state board_run)))) = [''Bob'', ''TT'', ''Lakto'']"
proof -
  let ?s = "app_run initial_state board_run"
  have c3: "\<lceil>(5::real) / 2\<rceil> = 3" "\<lceil>(6::real) / 2\<rceil> = 3" "\<lceil>(4::real) / 2\<rceil> = 2"
    by (simp_all add: ceiling_eq_iff)
  have ids: "string_of_nat 13 = ''13''" "string_of_nat 14 = ''14''"
    by (simp_all add: string_of_nat.simps [of 13] string_of_nat.simps [of 14]
        string_of_nat.simps [of "Suc 0"] digit_char_def)
  have pb: "map (\<lambda>r. (name r, score r)) (playerBoard ?s) =
     [(''Sitaowex'', 50), (''Len Ozora'', 13), (''Ann'', 0), (''Bob'', 0), (''TT'', - 28),
      (''Lakto'', - 40)]"
    by (simp add: board_run_def first_round_run_def run_simps c3 ids playerBoard_def
        player_row_def js_sort_def)
  have k: "topK ?s = real 3"
    by (simp add: board_run_def first_round_run_def run_simps c3 ids)
  have sc: "map score (playerBoard ?s) = map snd (map (\<lambda>r. (name r, score r)) (playerBoard ?s))"
    and nm: "map name (playerBoard ?s) = map fst (map (\<lambda>r. (name r, score r)) (playerBoard ?s))"
    by (simp_all add: comp_def)
  from playerBoard_sorted_stable_and_topK_only_divides [of ?s 0 3]
  have "map (fst \<circ> snd) (fst (Leaderboard (playerBoard ?s) False (real 3))) =
          take 3 (playerBoard ?s)"
    and "map (fst \<circ> snd) (snd (Leaderboard (playerBoard ?s) False (real 3))) =
          drop 3 (playerBoard ?s)"
    by blast+
  then have "map name (map (fst \<circ> snd) (fst (Leaderboard (playerBoard ?s) False (topK ?s)))) =
          take 3 (map name (playerBoard ?s))"
    and "map name (map (fst \<circ> snd) (snd (Leaderboard (playerBoard ?s) False (topK ?s)))) =
          drop 3 (map name (playerBoard ?s))"
    by (simp_all only: k take_map drop_map)
  then show ?thesis
    unfolding sc nm pb by (simp add: k comp_def)
qed

subsection \<open>The grouping lock of the earlier snapshot\<close>

text \<open>
  The snapshot announces the lock in its header comment (grouping is locked once the first
  round is saved) and at the grouping button (\<^verbatim>\<open>// lock grouping after games start\<close>).
  The button is where the lock is: once a round exists a click on it does nothing, and
  while the grouping dialog is not shown no event of the page other than the two resets
  changes the grouping flag or the groups.
\<close>

lemma grouping_locked_step:
  assumes "anyRounds s" and "\<not> showGroupSetup s"
    and "e \<noteq> GResetAll" and "e \<noteq> GRevertToDefault"
  shows "anyRounds (grp_step s e) \<and> \<not> showGroupSetup (grp_step s e) \<and>
         groupsEnabled (grp_step s e) = groupsEnabled s \<and> groups (grp_step s e) = groups s"
proof (cases e)
  case (GSaveRound now isoTime seat raws)
  with assms show ?thesis
    by (cases "validate_grp seat raws")
      (simp_all add: RoundDialog_onSave_grp_def onSave_with_def Let_def anyRounds_def)
next
  case (GSaveSettings tempBonus)
  with assms show ?thesis
    by (simp add: SettingsDialog_onSave_grp_def anyRounds_def split: option.splits)
qed (use assms in \<open>simp_all add: GroupSetupButton_onClick_def handleUpdatePlayer_def
      anyRounds_def\<close>)

lemma grouping_locked_run:
  assumes "anyRounds s" and "\<not> showGroupSetup s"
    and "GResetAll \<notin> set es" and "GRevertToDefault \<notin> set es"
  shows "groupsEnabled (grp_run s es) = groupsEnabled s \<and> groups (grp_run s es) = groups s"
  using assms
proof (induction es arbitrary: s)
  case Nil
  then show ?case by simp
next
  case (Cons e es)
  from Cons.prems have ne: "e \<noteq> GResetAll" "e \<noteq> GRevertToDefault" by auto
  from grouping_locked_step [OF Cons.prems(1,2) ne]
  have st: "anyRounds (grp_step s e)" "\<not> showGroupSetup (grp_step s e)"
    "groupsEnabled (grp_step s e) = groupsEnabled s" "groups (grp_step s e) = groups s"
    by simp_all
  from Cons.prems have "GResetAll \<notin> set es" "GRevertToDefault \<notin> set es" by auto
  from Cons.IH [OF st(1,2) this] st(3,4) show ?case by simp
qed

lemma grouping_button_disabled_once_rounds_exist:
  "anyRounds s \<Longrightarrow> GroupSetupButton_onClick s = s"
  by (simp add: GroupSetupButton_onClick_def)

text \<open>
  Before any round exists, which is so in the initial state and after a full reset, the
  button opens the dialog, and the dialog stores a disabled grouping, or an enabled one
  with 8 memberships in total, without a message.
\<close>

lemma grouping_saved_before_first_round:
  assumes "\<not> anyRounds s"
    and "enabled \<Longrightarrow> foldl (\<lambda>a g. a + length (members g)) 0 draftGroups = 8"
  shows "showGroupSetup (GroupSetupButton_onClick s)"
    and "GroupSetupDialog_onSave (GroupSetupButton_onClick s) enabled draftGroups =
        (s\<lparr> groupsEnabled := enabled, groups := draftGroups, showGroupSetup := False \<rparr>,
         None)"
  using assms by (auto simp: GroupSetupButton_onClick_def GroupSetupDialog_onSave_def)

lemma no_rounds_initially_and_after_reset:
  "\<not> anyRounds initial_grp_state" "\<not> anyRounds (resetAll_grp s True)"
  by (simp_all add: anyRounds_def initial_grp_state_def resetAll_grp_def)

lemma closed_dialog_attempt_changes_nothing:
  "anyRounds (grp_run initial_grp_state round_only_run) \<and>
   \<not> groupsEnabled (grp_run initial_grp_state (round_only_run @ attempt_run)) \<and>
   groups (grp_run initial_grp_state (round_only_run @ attempt_run)) = DEFAULT_GROUPS"
proof -
  let ?s1 = "grp_run initial_grp_state round_only_run"
  have run: "grp_run initial_grp_state (round_only_run @ attempt_run) = grp_run ?s1 attempt_run"
    by (simp add: grp_run_append)
  have h1: "anyRounds ?s1" and h4: "\<not> showGroupSetup ?s1"
    and g: "\<not> groupsEnabled ?s1" "groups ?s1 = DEFAULT_GROUPS"
    by (simp_all add: round_only_run_def grp_run_simps)
  have h5: "GResetAll \<notin> set attempt_run" "GRevertToDefault \<notin> set attempt_run"
    by (simp_all add: attempt_run_def)
  from grouping_locked_run [OF h1 h4 h5] g h1 show ?thesis
    by (simp only: run) simp
qed

text \<open>
  Claim C7 (the grouping cannot be changed once a round has been committed). The save
  handler of the grouping dialog does not look at the rounds. In \<open>open_then_round_run\<close>
  the grouping dialog is opened while no round exists and stays shown; a round is then
  saved through the round dialog. In the state reached, which holds a committed round and
  the disabled default grouping, the save button of the grouping dialog stores the enabled
  grouping \<open>full_groups\<close> and closes the dialog without any message, whereas the grouping
  button in a state with the same round does nothing.
\<close>

theorem grouping_dialog_saves_after_first_round:
  "length (rounds (grp_run initial_grp_state open_then_round_run)) = 1 \<and>
   anyRounds (grp_run initial_grp_state open_then_round_run) \<and>
   showGroupSetup (grp_run initial_grp_state open_then_round_run) \<and>
   \<not> groupsEnabled (grp_run initial_grp_state open_then_round_run) \<and>
   groups (grp_run initial_grp_state open_then_round_run) = DEFAULT_GROUPS \<and>
   GroupSetupDialog_onSave (grp_run initial_grp_state open_then_round_run) True full_groups =
     ((grp_run initial_grp_state open_then_round_run)
        \<lparr> groupsEnabled := True, groups := full_groups, showGroupSetup := False \<rparr>, None) \<and>
   groupsEnabled (grp_run initial_grp_state
      (open_then_round_run @ [GSaveGroups True full_groups])) \<and>
   groups (grp_run initial_grp_state
      (open_then_round_run @ [GSaveGroups True full_groups])) = full_groups \<and>
   length (rounds (grp_run initial_grp_state
      (open_then_round_run @ [GSaveGroups True full_groups]))) = 1 \<and>
   GroupSetupButton_onClick (grp_run initial_grp_state round_only_run) =
     grp_run initial_grp_state round_only_run"
proof -
  let ?s = "grp_run initial_grp_state open_then_round_run"
  have s: "length (rounds ?s) = 1" "showGroupSetup ?s" "\<not> groupsEnabled ?s"
    "groups ?s = DEFAULT_GROUPS"
    by (simp_all add: open_then_round_run_def grp_run_simps)
  have a: "anyRounds ?s" using s(1) by (simp add: anyRounds_def)
  have tot: "foldl (\<lambda>a g. a + length (members g)) 0 full_groups = 8"
    by (simp add: full_groups_def)
  have sv: "GroupSetupDialog_onSave ?s True full_groups =
     (?s\<lparr> groupsEnabled := True, groups := full_groups, showGroupSetup := False \<rparr>, None)"
    by (simp add: GroupSetupDialog_onSave_def tot)
  have run: "grp_run initial_grp_state (open_then_round_run @ [GSaveGroups True full_groups]) =
     ?s\<lparr> groupsEnabled := True, groups := full_groups, showGroupSetup := False \<rparr>"
    by (simp add: grp_run_append s(2) sv)
  have b: "GroupSetupButton_onClick (grp_run initial_grp_state round_only_run) =
     grp_run initial_grp_state round_only_run"
    by (simp add: GroupSetupButton_onClick_def anyRounds_def round_only_run_def grp_run_simps)
  from s a sv b show ?thesis by (simp add: run)
qed

subsection \<open>The ledger invariant of \<^verbatim>\<open>src/App.jsx\<close>\<close>

lemma round_total_Nil: "round_total [] p = 0"
  by (simp add: round_total_def)

lemma round_total_snoc:
  "round_total (rs @ [r]) p =
   round_total rs p + sum_list (map delta (filter (\<lambda>b. pid b = p) (breakdown r)))"
  by (simp add: round_total_def)

lemma round_total_unplayed: "p \<notin> set (round_pids rs) \<Longrightarrow> round_total rs p = 0"
proof -
  assume "p \<notin> set (round_pids rs)"
  then have "filter (\<lambda>b. pid b = p) (concat (map breakdown rs)) = []"
    by (auto simp: round_pids_def filter_empty_conv)
  then show ?thesis by (simp add: round_total_def)
qed

lemma filter_pid_none: "p \<notin> pid ` set ds \<Longrightarrow> filter (\<lambda>b. pid b = p) ds = []"
  by (auto simp: filter_empty_conv)

text \<open>The loop over the deltas adds, for every player, the deltas that carry its id.\<close>

lemma add_deltas_apply:
  "add_deltas ds m p =
   (if p \<in> pid ` set ds
    then Some (ledger_get m p + sum_list (map delta (filter (\<lambda>b. pid b = p) ds)))
    else m p)"
proof (induction ds arbitrary: m)
  case Nil
  then show ?case by (simp add: add_deltas_def)
next
  case (Cons d ds)
  have step: "add_deltas (d # ds) m = add_deltas ds (m(pid d \<mapsto> ledger_get m (pid d) + delta d))"
    by (simp add: add_deltas_def)
  show ?case
    unfolding step Cons.IH
    by (auto simp: ledger_get_def filter_pid_none)
qed

lemma fold_const_upd:
  "fold (\<lambda>x nxt. nxt(f x \<mapsto> c)) xs m k = (if k \<in> f ` set xs then Some c else m k)"
  by (induction xs arbitrary: m) auto

lemma fromEntries_const:
  "fromEntries (map (\<lambda>x. (f x, c)) xs) k = (if k \<in> f ` set xs then Some c else None)"
proof -
  have "fold (\<lambda>(k, v) m. m(k \<mapsto> v)) (map (\<lambda>x. (f x, c)) xs) m =
        fold (\<lambda>x nxt. nxt(f x \<mapsto> c)) xs m" for m
    by (induction xs arbitrary: m) auto
  then show ?thesis by (simp add: fromEntries_def fold_const_upd)
qed

lemma all_chosen:
  assumes "length (remdups (filter P xs)) = length xs"
  shows "\<forall>x \<in> set xs. P x"
proof -
  have "length (remdups (filter P xs)) \<le> length (filter P xs)" by (rule length_remdups_leq)
  with assms have "length (filter P xs) = length xs"
    using length_filter_le [of P xs] by linarith
  then show ?thesis
    using length_filter_less [of _ xs P] by fastforce
qed

lemma pid_computeRoundDeltas: "map pid (computeRoundDeltas es rb) = map pid es"
  by (simp add: computeRoundDeltas_def Let_def)

lemma length_quad_list: "length (quad_list q) = 4"
  by (cases q) (simp add: quad_list_def)

lemma pid_seatWithRaw_of: "map pid (seatWithRaw_of seat raws) = quad_list seat"
proof -
  have "map pid (seatWithRaw_of seat raws) =
        map fst (zip (quad_list seat) (zip (quad_list raws) [0..<4]))"
    by (simp add: seatWithRaw_of_def comp_def case_prod_beta)
  also have "\<dots> = quad_list seat"
    by (rule map_fst_zip) (simp add: length_quad_list)
  finally show ?thesis .
qed

lemma validate_seats:
  assumes "validate seat raws = None"
  shows "\<forall>p \<in> set (quad_list seat). p \<noteq> []"
proof -
  have "length (remdups (filter (\<lambda>p. p \<noteq> []) (quad_list seat))) = 4"
  proof (rule ccontr)
    assume "length (remdups (filter (\<lambda>p. p \<noteq> []) (quad_list seat))) \<noteq> 4"
    then have "validate seat raws = Some MsgSeats" by (simp add: validate_def)
    with assms show False by simp
  qed
  then have "length (remdups (filter (\<lambda>p. p \<noteq> []) (quad_list seat))) =
             length (quad_list seat)"
    by (simp add: length_quad_list)
  then show ?thesis by (rule all_chosen)
qed

lemma save_round_inv:
  assumes inv: "ledger_inv s" and ros: "roster_in_ledger s"
    and off: "offered s (SaveRound now isoTime seat raws)"
  shows "ledger_inv (fst (RoundDialog_onSave s now isoTime seat raws)) \<and>
         roster_in_ledger (fst (RoundDialog_onSave s now isoTime seat raws))"
proof (cases "validate seat raws")
  case (Some msg)
  with inv ros show ?thesis by (simp add: RoundDialog_onSave_def onSave_with_def)
next
  case None
  let ?ds = "computeRoundDeltas (seatWithRaw_of seat raws) (rankBonus s)"
  let ?s' = "fst (RoundDialog_onSave s now isoTime seat raws)"
  have sc: "playerScores ?s' = add_deltas ?ds (playerScores s)"
    using None by (simp add: RoundDialog_onSave_def onSave_with_def Let_def)
  have rt: "round_total (rounds ?s') p =
            round_total (rounds s) p + sum_list (map delta (filter (\<lambda>b. pid b = p) ?ds))" for p
    using None by (simp add: RoundDialog_onSave_def onSave_with_def Let_def round_total_snoc)
  have pl: "players ?s' = players s"
    using None by (simp add: RoundDialog_onSave_def onSave_with_def Let_def)
  have pids: "pid ` set ?ds = set (quad_list seat)"
    using pid_computeRoundDeltas [of "seatWithRaw_of seat raws" "rankBonus s"]
    by (metis pid_seatWithRaw_of set_map)
  have seated: "p \<in> dom (playerScores s)" if "p \<in> set (quad_list seat)" for p
  proof -
    from validate_seats [OF None] that have "p \<noteq> []" by blast
    with off that have "p \<in> p_id ` set (players s)" by (auto simp: list_all_iff)
    with ros show ?thesis by (auto simp: roster_in_ledger_def)
  qed
  have "ledger_inv ?s'"
    unfolding ledger_inv_def
  proof
    fix p assume "p \<in> dom (playerScores ?s')"
    show "playerScores ?s' p = Some (round_total (rounds ?s') p)"
    proof (cases "p \<in> set (quad_list seat)")
      case True
      from seated [OF True] inv have "ledger_get (playerScores s) p = round_total (rounds s) p"
        by (auto simp: ledger_inv_def ledger_get_def)
      with True show ?thesis by (simp add: sc rt add_deltas_apply pids)
    next
      case False
      then have nop: "filter (\<lambda>b. pid b = p) ?ds = []"
        using pids by (auto simp: filter_empty_conv)
      from False \<open>p \<in> dom (playerScores ?s')\<close> have "p \<in> dom (playerScores s)"
        by (auto simp: sc add_deltas_apply pids split: if_splits)
      with inv False show ?thesis
        by (simp add: sc rt add_deltas_apply pids nop ledger_inv_def)
    qed
  qed
  moreover have "roster_in_ledger ?s'"
    using ros by (auto simp: roster_in_ledger_def pl sc add_deltas_apply dom_def)
  ultimately show ?thesis by simp
qed

lemma p_id_apply_patch: "p_id (apply_patch p pt) = p_id p"
  by (cases pt) simp_all

lemma step_inv:
  assumes inv: "ledger_inv s" and ros: "roster_in_ledger s"
    and off: "offered s e" and fresh: "adds_unplayed s e"
  shows "ledger_inv (app_step s e) \<and> roster_in_ledger (app_step s e)"
proof (cases e)
  case (SaveRound now isoTime seat raws)
  with save_round_inv [OF inv ros] off show ?thesis by simp
next
  case (SaveSettings tempBonus tempTopK)
  with inv ros show ?thesis
    by (simp add: SettingsDialog_onSave_def ledger_inv_def roster_in_ledger_def
        split: option.splits)
next
  case ResetAll
  then show ?thesis
    by (auto simp: resetAll_def ledger_inv_def roster_in_ledger_def fromEntries_const
        round_total_Nil split: if_splits)
next
  case RevertToDefault
  then show ?thesis
    by (simp add: revertToDefault_def ledger_inv_def roster_in_ledger_def)
next
  case (UpdatePlayer ident pt)
  with inv ros show ?thesis
    by (auto simp: handleUpdatePlayer_def ledger_inv_def roster_in_ledger_def p_id_apply_patch)
next
  case (ConfirmAddPlayer newPlayerName newPlayerAvatar now isPassword)
  show ?thesis
  proof (cases "trim newPlayerName = [] \<or> isPassword")
    case True
    with inv ros ConfirmAddPlayer show ?thesis
      by (auto simp: handleConfirmAddPlayer_def ledger_inv_def roster_in_ledger_def)
  next
    case False
    with fresh ConfirmAddPlayer
    have "round_total (rounds s) (''p'' @ string_of_nat now) = 0"
      by (simp add: round_total_unplayed)
    with inv ros ConfirmAddPlayer False show ?thesis
      by (auto simp: handleConfirmAddPlayer_def Let_def ledger_inv_def roster_in_ledger_def)
  qed
next
  case (SharkyToggle ident)
  with inv ros show ?thesis
    by (simp add: sharkyToggle_def ledger_inv_def roster_in_ledger_def)
next
  case SharkyDone
  let ?sel = "filter (\<lambda>p. p_id p \<in> set (sharkySelected s)) DEFAULT_PLAYERS"
  have zero: "round_total (rounds s) p = 0" if "p \<in> p_id ` set ?sel" for p
  proof -
    from that have "p \<in> set (sharkySelected s)" by auto
    with fresh SharkyDone have "p \<notin> set (round_pids (rounds s))"
      by (simp add: list_all_iff)
    then show ?thesis by (rule round_total_unplayed)
  qed
  show ?thesis
  proof (cases "sharkySelected s = []")
    case True
    with inv ros SharkyDone show ?thesis by (simp add: sharkyDone_def)
  next
    case False
    have "ledger_inv (sharkyDone s)"
      unfolding ledger_inv_def
    proof
      fix p assume "p \<in> dom (playerScores (sharkyDone s))"
      then show "playerScores (sharkyDone s) p = Some (round_total (rounds (sharkyDone s)) p)"
        using False inv zero [of p]
        by (auto simp: sharkyDone_def Let_def fold_const_upd ledger_inv_def split: if_splits)
    qed
    moreover have "roster_in_ledger (sharkyDone s)"
      using False ros
      by (auto simp: sharkyDone_def Let_def fold_const_upd roster_in_ledger_def dom_def)
    ultimately show ?thesis using SharkyDone by simp
  qed
next
  case (RemovePlayer ident)
  with inv ros show ?thesis
    by (auto simp: removePlayer_def ledger_inv_def roster_in_ledger_def)
qed

lemma initial_inv: "ledger_inv initial_state \<and> roster_in_ledger initial_state"
  by (auto simp: ledger_inv_def roster_in_ledger_def initial_state_def fromEntries_const
      round_total_Nil dom_def split: if_splits)

text \<open>
  Round saves, settings saves, resets, reverts, player edits and removals keep the ledger
  equal to the sums over the committed rounds, and so does an addition of players whose
  ids occur in no committed round, in particular the addition through the add-player
  dialog, whose id is made from the clock.
\<close>

lemma ledger_invariant_over_runs:
  assumes "ledger_inv s" and "roster_in_ledger s" and "run_ok s es"
  shows "ledger_inv (app_run s es) \<and> roster_in_ledger (app_run s es)"
  using assms
proof (induction es arbitrary: s)
  case Nil
  then show ?case by simp
next
  case (Cons e es)
  from Cons.prems have "offered s e" "adds_unplayed s e" "run_ok (app_step s e) es"
    by simp_all
  with step_inv [of s e] Cons.prems
  have "ledger_inv (app_step s e)" "roster_in_ledger (app_step s e)" by simp_all
  from Cons.IH [OF this \<open>run_ok (app_step s e) es\<close>] show ?case by simp
qed

lemma ledger_invariant_first_round:
  "run_ok initial_state first_round_run \<and>
   ledger_inv (app_run initial_state first_round_run) \<and>
   playerScores (app_run initial_state first_round_run) ''p1'' = Some 50 \<and>
   round_total (rounds (app_run initial_state first_round_run)) ''p1'' = 50"
proof -
  have h1: "ledger_inv initial_state" and h2: "roster_in_ledger initial_state"
    using initial_inv by simp_all
  have h3: "run_ok initial_state first_round_run"
    by (simp add: first_round_run_def run_simps round_pids_def seats1_def quad_list_def)
  have p1: "playerScores (app_run initial_state first_round_run) ''p1'' = Some 50"
    by (simp add: first_round_run_def run_simps)
  from ledger_invariant_over_runs [OF h1 h2 h3]
  have inv: "ledger_inv (app_run initial_state first_round_run)" by simp
  with p1 have "round_total (rounds (app_run initial_state first_round_run)) ''p1'' = 50"
    by (auto simp: ledger_inv_def dom_def)
  with h3 inv p1 show ?thesis by simp
qed

text \<open>
  Claim C3 (every ledger entry is the sum of the player's deltas over the committed
  rounds). The selection screen offers every default player, also one that is on the roster
  and has played; its finishing button appends the selected players to the roster and sets
  their ledger entries to 0. After \<open>first_round_run\<close> the ledger entry of p1 is 50, the delta
  of p1 in the one committed round. \<open>readd_run\<close> then adds p1 again: the committed rounds
  are the same, p1 is on the roster twice, and the ledger entry of p1 is 0 while the deltas
  of p1 over the committed rounds sum to 50.
\<close>

theorem readding_a_default_player_zeroes_its_ledger_entry:
  "playerScores (app_run initial_state first_round_run) ''p1'' = Some 50 \<and>
   round_total (rounds (app_run initial_state first_round_run)) ''p1'' = 50 \<and>
   rounds (app_run initial_state readd_run) = rounds (app_run initial_state first_round_run) \<and>
   map p_id (players (app_run initial_state first_round_run)) =
     [''p1'', ''p2'', ''p3'', ''p4''] \<and>
   map p_id (players (app_run initial_state readd_run)) =
     [''p1'', ''p2'', ''p3'', ''p4'', ''p1''] \<and>
   playerScores (app_run initial_state readd_run) ''p1'' = Some 0 \<and>
   round_total (rounds (app_run initial_state readd_run)) ''p1'' = 50"
proof -
  have a: "playerScores (app_run initial_state first_round_run) ''p1'' = Some 50"
    by (simp add: first_round_run_def run_simps)
  have b: "round_total (rounds (app_run initial_state first_round_run)) ''p1'' = 50"
    by (simp add: first_round_run_def run_simps round_total_def)
  have c: "rounds (app_run initial_state readd_run) =
           rounds (app_run initial_state first_round_run)"
    by (simp add: readd_run_def first_round_run_def run_simps)
  have d: "map p_id (players (app_run initial_state first_round_run)) =
             [''p1'', ''p2'', ''p3'', ''p4'']"
    by (simp add: first_round_run_def run_simps)
  have e: "map p_id (players (app_run initial_state readd_run)) =
             [''p1'', ''p2'', ''p3'', ''p4'', ''p1'']"
    by (simp add: readd_run_def first_round_run_def run_simps)
  have f: "playerScores (app_run initial_state readd_run) ''p1'' = Some 0"
    by (simp add: readd_run_def first_round_run_def run_simps)
  from a b c d e f show ?thesis by simp
qed

text \<open>Hence the invariant does not hold after \<open>readd_run\<close>.\<close>

lemma ledger_inv_broken_after_readd: "\<not> ledger_inv (app_run initial_state readd_run)"
proof
  assume "ledger_inv (app_run initial_state readd_run)"
  moreover have "playerScores (app_run initial_state readd_run) ''p1'' = Some 0"
    by (simp add: readd_run_def first_round_run_def run_simps)
  ultimately have "Some (0::real) =
      Some (round_total (rounds (app_run initial_state readd_run)) ''p1'')"
    by (auto simp: ledger_inv_def dom_def)
  moreover have "round_total (rounds (app_run initial_state readd_run)) ''p1'' = 50"
    by (simp add: readd_run_def first_round_run_def run_simps round_total_def)
  ultimately show False by simp
qed

end
